theory Spec2Isabelle
  imports Main
begin

section \<open>JavaScript primitives the frontend relies on\<close>

text \<open>
  Strings are byte strings (UTF-8). Numbers that the program uses as ids, indices and
  counters are integers; the request counter is never decremented and is a natural number.
\<close>

definition digit_char :: "nat \<Rightarrow> char" where
  "digit_char d = ''0123456789'' ! d"

text \<open>Number to string conversion of a template literal, for a non-negative integer.\<close>

fun show_nat :: "nat \<Rightarrow> string" where
  "show_nat n =
     (if n < 10 then [digit_char n] else show_nat (n div 10) @ [digit_char (n mod 10)])"

declare show_nat.simps [simp del]

definition show_int :: "int \<Rightarrow> string" where
  "show_int i = (if i < 0 then CHR ''-'' # show_nat (nat (- i)) else show_nat (nat i))"

text \<open>The rest of a string after a prefix, if it starts with it.\<close>

fun strip_prefix :: "string \<Rightarrow> string \<Rightarrow> string option" where
  "strip_prefix [] cs = Some cs"
| "strip_prefix (p # ps) [] = None"
| "strip_prefix (p # ps) (c # cs) = (if p = c then strip_prefix ps cs else None)"

text \<open>
  \<open>String.prototype.trim\<close> strips white space and line terminators from both ends:
  U+0009 to U+000D, U+0020, U+00A0, U+1680, U+2000 to U+200A, U+2028, U+2029, U+202F,
  U+205F, U+3000 and U+FEFF. These are their UTF-8 encodings.
\<close>

definition js_whitespace :: "string list" where
  "js_whitespace =
     [ [CHR 0x09], [CHR 0x0A], [CHR 0x0B], [CHR 0x0C], [CHR 0x0D], [CHR 0x20],
       [CHR 0xC2, CHR 0xA0],
       [CHR 0xE1, CHR 0x9A, CHR 0x80],
       [CHR 0xE2, CHR 0x80, CHR 0x80], [CHR 0xE2, CHR 0x80, CHR 0x81],
       [CHR 0xE2, CHR 0x80, CHR 0x82], [CHR 0xE2, CHR 0x80, CHR 0x83],
       [CHR 0xE2, CHR 0x80, CHR 0x84], [CHR 0xE2, CHR 0x80, CHR 0x85],
       [CHR 0xE2, CHR 0x80, CHR 0x86], [CHR 0xE2, CHR 0x80, CHR 0x87],
       [CHR 0xE2, CHR 0x80, CHR 0x88], [CHR 0xE2, CHR 0x80, CHR 0x89],
       [CHR 0xE2, CHR 0x80, CHR 0x8A],
       [CHR 0xE2, CHR 0x80, CHR 0xA8], [CHR 0xE2, CHR 0x80, CHR 0xA9],
       [CHR 0xE2, CHR 0x80, CHR 0xAF],
       [CHR 0xE2, CHR 0x81, CHR 0x9F],
       [CHR 0xE3, CHR 0x80, CHR 0x80],
       [CHR 0xEF, CHR 0xBB, CHR 0xBF] ]"

text \<open>The string after one leading sequence of the list, if it starts with one.\<close>

fun drop_space :: "string list \<Rightarrow> string \<Rightarrow> string option" where
  "drop_space [] s = None"
| "drop_space (w # ws) s =
     (case strip_prefix w s of Some r \<Rightarrow> Some r | None \<Rightarrow> drop_space ws s)"

text \<open>
  Stripping at the start, one character at a time. No sequence of the list is empty, so
  the rest is always shorter.
\<close>

fun trim_left :: "string list \<Rightarrow> string \<Rightarrow> string" where
  "trim_left ws s =
     (case drop_space ws s of
        None \<Rightarrow> s
      | Some r \<Rightarrow> if length r < length s then trim_left ws r else s)"

declare trim_left.simps [simp del]

text \<open>
  The end is stripped on the reversed string with the reversed sequences: in UTF-8 a
  string that ends with the encoding of a character ends with that character.
\<close>

definition js_trim :: "string \<Rightarrow> string" where
  "js_trim s = rev (trim_left (map rev js_whitespace) (rev (trim_left js_whitespace s)))"

text \<open>
  \<open>String.prototype.toLowerCase\<close> on the ASCII letters. No character outside ASCII has a
  lower-case form made of the letters of \<open>mixed\<close>, so the comparison with that word is
  decided by this mapping.
\<close>

definition lower_char :: "char \<Rightarrow> char" where
  "lower_char c =
     (case map_of (zip ''ABCDEFGHIJKLMNOPQRSTUVWXYZ'' ''abcdefghijklmnopqrstuvwxyz'') c of
        Some d \<Rightarrow> d
      | None \<Rightarrow> c)"

definition toLowerCase :: "string \<Rightarrow> string" where
  "toLowerCase s = map lower_char s"

text \<open>
  \<open>encodeURIComponent\<close>: every byte of the UTF-8 encoding is escaped as \<open>%XX\<close> except the
  unreserved characters \<open>A-Z a-z 0-9 - _ . ! ~ * ' ( )\<close>.
\<close>

definition hex_digit :: "nat \<Rightarrow> char" where
  "hex_digit d = ''0123456789ABCDEF'' ! d"

definition unreserved :: "char \<Rightarrow> bool" where
  "unreserved c =
     (c \<in> set ''ABCDEFGHIJKLMNOPQRSTUVWXYZabcdefghijklmnopqrstuvwxyz0123456789-_.!~*()''
      \<or> c = CHR 0x27)"

definition encode_char :: "char \<Rightarrow> string" where
  "encode_char c =
     (if unreserved c then [c]
      else [CHR ''%'', hex_digit (of_char c div 16), hex_digit (of_char c mod 16)])"

definition encodeURIComponent :: "string \<Rightarrow> string" where
  "encodeURIComponent s = concat (map encode_char s)"

text \<open>\<open>Array.prototype.findIndex\<close>: the first index whose element passes, or \<open>-1\<close>.\<close>

fun findIndex :: "('a \<Rightarrow> bool) \<Rightarrow> 'a list \<Rightarrow> int" where
  "findIndex P [] = - 1"
| "findIndex P (x # xs) =
     (if P x then 0 else (let r = findIndex P xs in if r < 0 then - 1 else r + 1))"

text \<open>Indexing an array: \<open>undefined\<close> outside the array.\<close>

definition js_index :: "'a list \<Rightarrow> int \<Rightarrow> 'a option" where
  "js_index xs i = (if 0 \<le> i \<and> i < int (length xs) then Some (xs ! nat i) else None)"

text \<open>
  A number or \<open>null\<close> used as a condition: \<open>null\<close> and \<open>0\<close> are falsy.
\<close>

definition truthy :: "int option \<Rightarrow> bool" where
  "truthy v = (case v of None \<Rightarrow> False | Some n \<Rightarrow> n \<noteq> 0)"

text \<open>
  A thrown value: an \<open>Error\<close> object with its message, or a value with no \<open>message\<close>
  property. \<open>e?.message ?? fallback\<close> reads it.
\<close>

datatype js_error = JsError string | NoMessage

definition message_or :: "js_error \<Rightarrow> string \<Rightarrow> string" where
  "message_or e fallback = (case e of JsError m \<Rightarrow> m | NoMessage \<Rightarrow> fallback)"

text \<open>The values \<open>JSON.parse\<close> can return.\<close>

datatype js_value =
    JNull
  | JBool bool
  | JNum int
  | JStr string
  | JArr "js_value list"
  | JObj "(string \<times> js_value) list"

text \<open>\<open>JSON.stringify\<close> of an array of integers.\<close>

fun join_commas :: "string list \<Rightarrow> string" where
  "join_commas [] = []"
| "join_commas [x] = x"
| "join_commas (x # y # ys) = x @ CHR '','' # join_commas (y # ys)"

definition JSON_stringify :: "int list \<Rightarrow> string" where
  "JSON_stringify xs = CHR ''['' # join_commas (map show_int xs) @ '']''"


section \<open>The API client (api/client.ts)\<close>

datatype http_method = GET | POST

text \<open>
  A request as the client issues it: the method, the path appended to \<open>API_URL\<close>, and the
  value whose JSON text is the body, when there is one.
\<close>

record request =
  meth :: http_method
  path :: string
  body :: "js_value option"

text \<open>
  What \<open>fetch\<close> gives back: it rejects, or it resolves to a response with its \<open>ok\<close> flag,
  its status and the outcome of \<open>res.json()\<close>.
\<close>

record 'a response =
  ok :: bool
  status :: nat
  json :: "js_error + 'a"

datatype 'a fetched = Rejects js_error | Resolves "'a response"

definition apiGet_request :: "string \<Rightarrow> request" where
  "apiGet_request p = \<lparr>meth = GET, path = p, body = None\<rparr>"

definition apiPost_request :: "string \<Rightarrow> js_value option \<Rightarrow> request" where
  "apiPost_request p b = \<lparr>meth = POST, path = p, body = b\<rparr>"

text \<open>The part of \<open>apiGet\<close> after \<open>await fetch(...)\<close>; \<open>Inl\<close> is the rejection.\<close>

definition apiGet :: "'a fetched \<Rightarrow> js_error + 'a" where
  "apiGet f =
     (case f of
        Rejects e \<Rightarrow> Inl e
      | Resolves res \<Rightarrow>
          if \<not> ok res then Inl (JsError (''API error '' @ show_nat (status res)))
          else json res)"

definition apiPost :: "'a fetched \<Rightarrow> js_error + 'a" where
  "apiPost f =
     (case f of
        Rejects e \<Rightarrow> Inl e
      | Resolves res \<Rightarrow>
          if \<not> ok res then Inl (JsError (''API error '' @ show_nat (status res)))
          else json res)"


section \<open>Data model\<close>

record topic =
  topic_id :: int
  topic_name :: string
  is_suggested :: bool

record entry_out =
  entry_id :: int
  headword :: string
  meaning_en :: string
  meaning_es :: string

record example_out =
  example_id :: int
  text_en :: string
  rank :: int

record entry_detail = entry_out +
  examples :: "example_out list"

record search_entry = entry_out +
  primary_topic :: "(int \<times> string) option"
  topic_ids :: "int list option"

definition YOUR_TOPICS_KEY :: string where
  "YOUR_TOPICS_KEY = ''your_topic_ids_v1''"

text \<open>
  The state of \<open>MainFlashcard\<close>: its \<open>useState\<close> cells and the \<open>entryDetailReqRef\<close> counter,
  together with what it acts on: local storage, the requests issued so far, the clock in
  milliseconds and the pending search timeout (its due time and the query it captured).
  \<open>queryChangedAt\<close> records when \<open>searchQuery\<close> last changed.
\<close>

record main_flashcard =
  isFlipped :: bool
  isTopicModalOpen :: bool
  topics :: "topic list"
  selectedTopicId :: "int option"
  yourTopicIds :: "int list"
  entries :: "entry_out list"
  currentIndex :: int
  entryDetail :: "entry_detail option"
  loading :: bool
  errMsg :: "string option"
  searchQuery :: string
  searchResults :: "search_entry list"
  searchOpen :: bool
  searchLoading :: bool
  entryDetailReqRef :: nat
  pendingJumpEntryId :: "int option"
  localStorage :: "string \<rightharpoonup> string"
  requests :: "request list"
  now :: nat
  searchTimer :: "(nat \<times> string) option"
  queryChangedAt :: nat

definition initial :: "(string \<rightharpoonup> string) \<Rightarrow> main_flashcard" where
  "initial store =
     \<lparr>isFlipped = False, isTopicModalOpen = False, topics = [], selectedTopicId = None,
      yourTopicIds = [], entries = [], currentIndex = 0, entryDetail = None,
      loading = True, errMsg = None, searchQuery = [], searchResults = [],
      searchOpen = False, searchLoading = False, entryDetailReqRef = 0,
      pendingJumpEntryId = None, localStorage = store, requests = [], now = 0,
      searchTimer = None, queryChangedAt = 0\<rparr>"


section \<open>Your Topics (pages/MainFlashcard.tsx)\<close>

text \<open>
  The default topic: the first topic whose name lower-cases to \<open>mixed\<close>, else the first
  topic, else \<open>null\<close>: \<open>(mixed ?? t[0])?.id ?? null\<close>.
\<close>

definition defaultId :: "topic list \<Rightarrow> int option" where
  "defaultId t =
     (case find (\<lambda>x. toLowerCase (topic_name x) = ''mixed'') t of
        Some mixed \<Rightarrow> Some (topic_id mixed)
      | None \<Rightarrow> (case t of [] \<Rightarrow> None | x # _ \<Rightarrow> Some (topic_id x)))"

definition addToYourTopics :: "int \<Rightarrow> main_flashcard \<Rightarrow> main_flashcard" where
  "addToYourTopics topicId s =
     (let prev = yourTopicIds s in
      if topicId \<in> set prev then s
      else
        (let next = prev @ [topicId] in
         s\<lparr>yourTopicIds := next,
           localStorage := (localStorage s)(YOUR_TOPICS_KEY \<mapsto> JSON_stringify next)\<rparr>))"

definition resetYourTopics :: "main_flashcard \<Rightarrow> main_flashcard" where
  "resetYourTopics s =
     (let removed = (localStorage s)(YOUR_TOPICS_KEY := None);
          d = defaultId (topics s)
      in if truthy d then
           (let next = [the d] in
            s\<lparr>yourTopicIds := next,
              localStorage := removed(YOUR_TOPICS_KEY \<mapsto> JSON_stringify next),
              selectedTopicId := d,
              isTopicModalOpen := False\<rparr>)
         else
           s\<lparr>yourTopicIds := [], localStorage := removed, selectedTopicId := None,
             isTopicModalOpen := False\<rparr>)"

text \<open>\<open>onSelectTopic\<close> of the topic modal: the setter alone.\<close>

definition onSelectTopic :: "int \<Rightarrow> main_flashcard \<Rightarrow> main_flashcard" where
  "onSelectTopic t s = s\<lparr>selectedTopicId := Some t\<rparr>"


subsection \<open>Effect 1: loading the topics once\<close>

text \<open>
  The test \<open>savedIds.length === 0\<close> on whatever \<open>JSON.parse\<close> returned, the cast to
  \<open>number[]\<close> being unchecked: reading a property of \<open>null\<close> throws, a number or a boolean
  has no length, a string and an array have theirs, an object has it as a key. The
  messages of the two type errors are the engine's.
\<close>

fun length_is_zero :: "js_value \<Rightarrow> js_error + bool" where
  "length_is_zero JNull =
     Inl (JsError ''Cannot read properties of null (reading 'length')'')"
| "length_is_zero (JBool b) = Inr False"
| "length_is_zero (JNum n) = Inr False"
| "length_is_zero (JStr x) = Inr (x = [])"
| "length_is_zero (JArr xs) = Inr (xs = [])"
| "length_is_zero (JObj kvs) = Inr (map_of kvs ''length'' = Some (JNum 0))"

text \<open>
  \<open>savedIds.filter((id) => validSet.has(id))\<close>: on an array it keeps the elements that are
  numbers of the set; anything else has no \<open>filter\<close> method.
\<close>

fun valid_number :: "int list \<Rightarrow> js_value \<Rightarrow> int list" where
  "valid_number valid (JNum n) = (if n \<in> set valid then [n] else [])"
| "valid_number valid v = []"

fun filter_valid :: "int list \<Rightarrow> js_value \<Rightarrow> js_error + int list" where
  "filter_valid valid (JArr xs) = Inr (concat (map (valid_number valid) xs))"
| "filter_valid valid v = Inl (JsError ''savedIds.filter is not a function'')"

text \<open>
  \<open>raw ? JSON.parse(raw) : []\<close> inside its own \<open>try\<close>: a missing key, the empty string and
  a text that does not parse all give the empty array. \<open>JSON.parse\<close> is the argument
  \<open>parse\<close>, \<open>None\<close> where it throws.
\<close>

definition load_savedIds ::
  "(string \<Rightarrow> js_value option) \<Rightarrow> string option \<Rightarrow> js_value" where
  "load_savedIds parse raw =
     (case raw of
        None \<Rightarrow> JArr []
      | Some r \<Rightarrow>
          if r = [] then JArr []
          else (case parse r of None \<Rightarrow> JArr [] | Some v \<Rightarrow> v))"

definition loadTopics_start :: "main_flashcard \<Rightarrow> main_flashcard" where
  "loadTopics_start s =
     s\<lparr>loading := True, errMsg := None,
       requests := requests s @ [apiGet_request ''/topics'']\<rparr>"

text \<open>
  The rest of the effect, once \<open>apiGet\<close> has settled with \<open>res\<close>. A throw anywhere in the
  \<open>try\<close> keeps the updates made before it, sets the message, and \<open>finally\<close> clears
  \<open>loading\<close>.
\<close>

definition loadTopics_done ::
  "(string \<Rightarrow> js_value option) \<Rightarrow> js_error + topic list \<Rightarrow> main_flashcard \<Rightarrow> main_flashcard"
where
  "loadTopics_done parse res s =
     (case res of
        Inl e \<Rightarrow> s\<lparr>errMsg := Some (message_or e ''Failed to load topics''), loading := False\<rparr>
      | Inr t \<Rightarrow>
          (let s1 = s\<lparr>topics := t\<rparr>;
               d = defaultId t;
               saved = load_savedIds parse (localStorage s YOUR_TOPICS_KEY)
           in case length_is_zero saved of
                Inl e \<Rightarrow>
                  s1\<lparr>errMsg := Some (message_or e ''Failed to load topics''), loading := False\<rparr>
              | Inr is_empty \<Rightarrow>
                  (let use_default = is_empty \<and> truthy d;
                       saved' = (if use_default then JArr [JNum (the d)] else saved);
                       s2 = (if use_default
                             then s1\<lparr>localStorage :=
                                      (localStorage s1)(YOUR_TOPICS_KEY \<mapsto> JSON_stringify [the d])\<rparr>
                             else s1)
                   in case filter_valid (map topic_id t) saved' of
                        Inl e \<Rightarrow>
                          s2\<lparr>errMsg := Some (message_or e ''Failed to load topics''),
                             loading := False\<rparr>
                      | Inr ids \<Rightarrow>
                          s2\<lparr>yourTopicIds := ids,
                             selectedTopicId := (case ids of x # _ \<Rightarrow> Some x | [] \<Rightarrow> d),
                             loading := False\<rparr>)))"


subsection \<open>Effect 2: loading the entries of the selected topic\<close>

definition entries_path :: "int \<Rightarrow> string" where
  "entries_path t = ''/entries?topic_id='' @ show_int t @ ''&limit=2000''"

definition loadEntries_effect :: "main_flashcard \<Rightarrow> main_flashcard" where
  "loadEntries_effect s =
     (if \<not> truthy (selectedTopicId s) then s
      else s\<lparr>loading := True, errMsg := None, isFlipped := False,
             requests := requests s @ [apiGet_request (entries_path (the (selectedTopicId s)))]\<rparr>)"

definition loadEntries_done ::
  "js_error + entry_out list \<Rightarrow> main_flashcard \<Rightarrow> main_flashcard" where
  "loadEntries_done res s =
     (case res of
        Inr list \<Rightarrow> s\<lparr>entries := list, currentIndex := 0, loading := False\<rparr>
      | Inl e \<Rightarrow> s\<lparr>errMsg := Some (message_or e ''Failed to load entries''), loading := False\<rparr>)"

text \<open>
  React runs the effect again after a render in which \<open>selectedTopicId\<close> differs from
  its value at the previous render. Selecting a topic in the modal is the setter
  followed by that.
\<close>

definition selectedTopic_rerender :: "main_flashcard \<Rightarrow> main_flashcard \<Rightarrow> main_flashcard" where
  "selectedTopic_rerender old s =
     (if selectedTopicId s = selectedTopicId old then s else loadEntries_effect s)"

definition select_topic :: "int \<Rightarrow> main_flashcard \<Rightarrow> main_flashcard" where
  "select_topic t s = selectedTopic_rerender s (onSelectTopic t s)"


subsection \<open>Entry details and the request counter\<close>

definition entry_path :: "int \<Rightarrow> string" where
  "entry_path i = ''/entries/'' @ show_int i"

text \<open>
  The effect that jumps to a pending entry once the entries are there. Its fallback
  fetches the entry; the request id is the counter after \<open>++entryDetailReqRef.current\<close>.
\<close>

definition pendingJump_effect :: "main_flashcard \<Rightarrow> main_flashcard" where
  "pendingJump_effect s =
     (if \<not> truthy (pendingJumpEntryId s) then s
      else if entries s = [] then s
      else
        (let idx = findIndex (\<lambda>e. entry_id e = the (pendingJumpEntryId s)) (entries s) in
         if idx \<ge> 0 then s\<lparr>isFlipped := False, currentIndex := idx, pendingJumpEntryId := None\<rparr>
         else s\<lparr>entryDetailReqRef := entryDetailReqRef s + 1, loading := True, errMsg := None,
                requests := requests s @ [apiGet_request (entry_path (the (pendingJumpEntryId s)))]\<rparr>))"

definition pendingJump_done ::
  "nat \<Rightarrow> js_error + entry_detail \<Rightarrow> main_flashcard \<Rightarrow> main_flashcard" where
  "pendingJump_done requestId res s =
     (if requestId \<noteq> entryDetailReqRef s then s
      else case res of
        Inr detail \<Rightarrow>
          s\<lparr>entryDetail := Some detail, isFlipped := False, loading := False,
            pendingJumpEntryId := None\<rparr>
      | Inl e \<Rightarrow>
          s\<lparr>errMsg := Some (message_or e ''Failed to open entry''), loading := False,
            pendingJumpEntryId := None\<rparr>)"

text \<open>Effect 3: the detail of the current entry.\<close>

definition detail_effect :: "main_flashcard \<Rightarrow> main_flashcard" where
  "detail_effect s =
     (case js_index (entries s) (currentIndex s) of
        None \<Rightarrow> s\<lparr>entryDetail := None\<rparr>
      | Some current \<Rightarrow>
          s\<lparr>entryDetailReqRef := entryDetailReqRef s + 1, loading := True, errMsg := None,
            requests := requests s @ [apiGet_request (entry_path (entry_id current))]\<rparr>)"

definition detail_done ::
  "nat \<Rightarrow> js_error + entry_detail \<Rightarrow> main_flashcard \<Rightarrow> main_flashcard" where
  "detail_done requestId res s =
     (if requestId \<noteq> entryDetailReqRef s then s
      else case res of
        Inr detail \<Rightarrow> s\<lparr>entryDetail := Some detail, loading := False\<rparr>
      | Inl e \<Rightarrow>
          s\<lparr>errMsg := Some (message_or e ''Failed to load entry detail''), loading := False\<rparr>)"


subsection \<open>Search\<close>

definition search_path :: "string \<Rightarrow> string" where
  "search_path q = ''/entries/search?q='' @ encodeURIComponent q @ ''&limit=20''"

text \<open>
  The debounced search effect. Its cleanup clears the timeout it set; its body sets a
  timeout of 250 ms for a query that is not blank.
\<close>

definition search_cleanup :: "main_flashcard \<Rightarrow> main_flashcard" where
  "search_cleanup s = s\<lparr>searchTimer := None\<rparr>"

definition search_effect :: "main_flashcard \<Rightarrow> main_flashcard" where
  "search_effect s =
     (let q = js_trim (searchQuery s) in
      if q = [] then s\<lparr>searchResults := [], searchOpen := False\<rparr>
      else s\<lparr>searchTimer := Some (now s + 250, q)\<rparr>)"

text \<open>
  The timeout's callback up to its \<open>await\<close>. The browser runs it once, no earlier than
  the due time, unless the timeout was cleared.
\<close>

definition search_timeout :: "main_flashcard \<Rightarrow> main_flashcard" where
  "search_timeout s =
     (case searchTimer s of
        None \<Rightarrow> s
      | Some (due, q) \<Rightarrow>
          if due \<le> now s then
            s\<lparr>searchTimer := None, searchLoading := True,
              requests := requests s @ [apiGet_request (search_path q)]\<rparr>
          else s)"

definition search_done ::
  "js_error + search_entry list \<Rightarrow> main_flashcard \<Rightarrow> main_flashcard" where
  "search_done res s =
     (case res of
        Inr r \<Rightarrow> s\<lparr>searchResults := r, searchOpen := True, searchLoading := False\<rparr>
      | Inl e \<Rightarrow> s\<lparr>searchResults := [], searchOpen := True, searchLoading := False\<rparr>)"

text \<open>
  React runs the cleanup and the effect again after a render in which \<open>searchQuery\<close>
  differs from its value at the previous render.
\<close>

definition searchQuery_rerender :: "main_flashcard \<Rightarrow> main_flashcard \<Rightarrow> main_flashcard" where
  "searchQuery_rerender old s =
     (if searchQuery s = searchQuery old then s
      else search_effect (search_cleanup (s\<lparr>queryChangedAt := now s\<rparr>)))"

definition onChange_search :: "string \<Rightarrow> main_flashcard \<Rightarrow> main_flashcard" where
  "onChange_search v s = searchQuery_rerender s (s\<lparr>searchQuery := v\<rparr>)"

definition onFocus_search :: "main_flashcard \<Rightarrow> main_flashcard" where
  "onFocus_search s = (if js_trim (searchQuery s) \<noteq> [] then s\<lparr>searchOpen := True\<rparr> else s)"

definition onDocMouseDown :: "main_flashcard \<Rightarrow> main_flashcard" where
  "onDocMouseDown s = s\<lparr>searchOpen := False\<rparr>"

definition selectSearchResult :: "search_entry \<Rightarrow> main_flashcard \<Rightarrow> main_flashcard" where
  "selectSearchResult item s =
     (let s1 = s\<lparr>searchOpen := False, searchQuery := []\<rparr>;
          targetTopicId = map_option fst (primary_topic item)
      in if truthy targetTopicId \<and> targetTopicId \<noteq> selectedTopicId s then
           (addToYourTopics (the targetTopicId)
              (s1\<lparr>pendingJumpEntryId := Some (entry_id item), isFlipped := False,
                  entryDetail := None, entryDetailReqRef := entryDetailReqRef s + 1\<rparr>))
             \<lparr>selectedTopicId := targetTopicId\<rparr>
         else
           (let idx = findIndex (\<lambda>e. entry_id e = entry_id item) (entries s) in
            if idx \<ge> 0 then s1\<lparr>isFlipped := False, currentIndex := idx\<rparr>
            else
              s1\<lparr>entryDetailReqRef := entryDetailReqRef s + 1, loading := True, errMsg := None,
                 requests := requests s @ [apiGet_request (entry_path (entry_id item))]\<rparr>))"

definition selectSearchResult_done ::
  "nat \<Rightarrow> js_error + entry_detail \<Rightarrow> main_flashcard \<Rightarrow> main_flashcard" where
  "selectSearchResult_done requestId res s =
     (if requestId \<noteq> entryDetailReqRef s then s
      else case res of
        Inr detail \<Rightarrow> s\<lparr>entryDetail := Some detail, isFlipped := False, loading := False\<rparr>
      | Inl e \<Rightarrow> s\<lparr>errMsg := Some (message_or e ''Failed to open entry''), loading := False\<rparr>)"


subsection \<open>Card navigation\<close>

definition canPrev :: "main_flashcard \<Rightarrow> bool" where
  "canPrev s = (currentIndex s > 0)"

definition canNext :: "main_flashcard \<Rightarrow> bool" where
  "canNext s = (currentIndex s < int (length (entries s)) - 1)"

definition goPrev :: "main_flashcard \<Rightarrow> main_flashcard" where
  "goPrev s =
     (if \<not> canPrev s then s
      else s\<lparr>isFlipped := False, currentIndex := max 0 (currentIndex s - 1)\<rparr>)"

definition goNext :: "main_flashcard \<Rightarrow> main_flashcard" where
  "goNext s =
     (if \<not> canNext s then s
      else s\<lparr>isFlipped := False,
             currentIndex := min (int (length (entries s)) - 1) (currentIndex s + 1)\<rparr>)"

definition onFlip :: "main_flashcard \<Rightarrow> main_flashcard" where
  "onFlip s = s\<lparr>isFlipped := \<not> isFlipped s\<rparr>"


section \<open>Sign-in (App.tsx)\<close>

record auth_user =
  user_id :: int
  email :: string
  user_name :: "string option"
  avatar_url :: "string option"

record app =
  checkingSession :: bool
  authLoading :: bool
  authError :: "string option"
  user :: "auth_user option"
  app_requests :: "request list"

definition app_initial :: app where
  "app_initial =
     \<lparr>checkingSession = True, authLoading = False, authError = None, user = None,
      app_requests = []\<rparr>"

definition session_effect :: "app \<Rightarrow> app" where
  "session_effect a = a\<lparr>app_requests := app_requests a @ [apiGet_request ''/auth/me'']\<rparr>"

definition session_done :: "js_error + auth_user \<Rightarrow> app \<Rightarrow> app" where
  "session_done res a =
     (case res of
        Inr me \<Rightarrow> a\<lparr>user := Some me, checkingSession := False\<rparr>
      | Inl e \<Rightarrow> a\<lparr>user := None, checkingSession := False\<rparr>)"

definition handleGoogleCredential :: "string \<Rightarrow> app \<Rightarrow> app" where
  "handleGoogleCredential credential a =
     a\<lparr>authLoading := True, authError := None,
       app_requests := app_requests a @
         [apiPost_request ''/auth/google'' (Some (JObj [(''credential'', JStr credential)]))]\<rparr>"

definition handleGoogleCredential_done :: "js_error + auth_user \<Rightarrow> app \<Rightarrow> app" where
  "handleGoogleCredential_done res a =
     (case res of
        Inr loggedUser \<Rightarrow> a\<lparr>user := Some loggedUser, authLoading := False\<rparr>
      | Inl e \<Rightarrow>
          a\<lparr>authError := Some ''Could not sign in with Google. Please try again.'',
            authLoading := False\<rparr>)"

definition handleLogout :: "app \<Rightarrow> app" where
  "handleLogout a = a\<lparr>app_requests := app_requests a @ [apiPost_request ''/auth/logout'' None]\<rparr>"

definition handleLogout_done :: "js_error + bool \<Rightarrow> app \<Rightarrow> app" where
  "handleLogout_done res a = a\<lparr>user := None\<rparr>"


section \<open>The topic modal (components/TopicModal.tsx)\<close>

text \<open>\<open>String.prototype.includes\<close>: the second string occurs in the first.\<close>

fun js_includes :: "string \<Rightarrow> string \<Rightarrow> bool" where
  "js_includes [] x = (x = [])"
| "js_includes (c # cs) x = (take (length x) (c # cs) = x \<or> js_includes cs x)"

definition filteredAll :: "string \<Rightarrow> topic list \<Rightarrow> topic list" where
  "filteredAll q ts =
     (let x = toLowerCase (js_trim q) in
      if x = [] then ts else filter (\<lambda>t. js_includes (toLowerCase (topic_name t)) x) ts)"

definition suggested :: "string \<Rightarrow> topic list \<Rightarrow> int list \<Rightarrow> topic list" where
  "suggested q ts your =
     filter (\<lambda>t. is_suggested t \<and> topic_id t \<notin> set your) (filteredAll q ts)"

definition allToShow :: "string \<Rightarrow> topic list \<Rightarrow> int list \<Rightarrow> topic list" where
  "allToShow q ts your = filter (\<lambda>t. topic_id t \<notin> set your) (filteredAll q ts)"

text \<open>
  The topics that carry an \<open>+ Add\<close> button: the first six suggestions and, when shown, all
  the topics not yet in Your Topics.
\<close>

definition addable :: "string \<Rightarrow> main_flashcard \<Rightarrow> topic list" where
  "addable q s =
     take 6 (suggested q (topics s) (yourTopicIds s)) @ allToShow q (topics s) (yourTopicIds s)"


section \<open>The component as a transition system\<close>

text \<open>
  What can happen to a mounted \<open>MainFlashcard\<close>: the user's actions, the passing of time,
  the search timeout, and the settling of each request with the outcome of \<open>apiGet\<close>.
  The effects on the selected topic, the pending jump and the current entry are events
  of their own, so that a run may place them after any render. The search effect is run
  by the two actions that change \<open>searchQuery\<close>, since it is the change that clears and
  sets its timeout.
\<close>

datatype mf_event =
    TopicsSettled "js_error + topic list"
  | EntriesEffect
  | EntriesSettled "js_error + entry_out list"
  | PendingJumpEffect
  | PendingJumpSettled nat "js_error + entry_detail"
  | DetailEffect
  | DetailSettled nat "js_error + entry_detail"
  | ChangeSearch string
  | FocusSearch
  | DocMouseDown
  | SearchTimeout
  | SearchSettled "js_error + search_entry list"
  | ClickResult search_entry
  | ClickResultSettled nat "js_error + entry_detail"
  | Elapse nat
  | AddTopic int
  | ResetTopics
  | SelectTopic int
  | OpenModal
  | CloseModal
  | Prev
  | Next
  | Flip

fun mf_step :: "(string \<Rightarrow> js_value option) \<Rightarrow> main_flashcard \<Rightarrow> mf_event \<Rightarrow> main_flashcard" where
  "mf_step parse s (TopicsSettled res) = loadTopics_done parse res s"
| "mf_step parse s EntriesEffect = loadEntries_effect s"
| "mf_step parse s (EntriesSettled res) = loadEntries_done res s"
| "mf_step parse s PendingJumpEffect = pendingJump_effect s"
| "mf_step parse s (PendingJumpSettled r res) = pendingJump_done r res s"
| "mf_step parse s DetailEffect = detail_effect s"
| "mf_step parse s (DetailSettled r res) = detail_done r res s"
| "mf_step parse s (ChangeSearch v) = onChange_search v s"
| "mf_step parse s FocusSearch = onFocus_search s"
| "mf_step parse s DocMouseDown = onDocMouseDown s"
| "mf_step parse s SearchTimeout = search_timeout s"
| "mf_step parse s (SearchSettled res) = search_done res s"
| "mf_step parse s (ClickResult item) = searchQuery_rerender s (selectSearchResult item s)"
| "mf_step parse s (ClickResultSettled r res) = selectSearchResult_done r res s"
| "mf_step parse s (Elapse d) = s\<lparr>now := now s + d\<rparr>"
| "mf_step parse s (AddTopic t) = addToYourTopics t s"
| "mf_step parse s ResetTopics = resetYourTopics s"
| "mf_step parse s (SelectTopic t) = (onSelectTopic t s)\<lparr>isTopicModalOpen := False\<rparr>"
| "mf_step parse s OpenModal = s\<lparr>isTopicModalOpen := True\<rparr>"
| "mf_step parse s CloseModal = s\<lparr>isTopicModalOpen := False\<rparr>"
| "mf_step parse s Prev = goPrev s"
| "mf_step parse s Next = goNext s"
| "mf_step parse s Flip = onFlip s"

text \<open>
  Mounting runs every effect once, in the order of their declaration, on the initial
  state.
\<close>

definition mount :: "main_flashcard \<Rightarrow> main_flashcard" where
  "mount s =
     search_effect (detail_effect (pendingJump_effect (loadEntries_effect (loadTopics_start s))))"

definition mf_run ::
  "(string \<Rightarrow> js_value option) \<Rightarrow> (string \<rightharpoonup> string) \<Rightarrow> mf_event list \<Rightarrow> main_flashcard" where
  "mf_run parse store es = foldl (mf_step parse) (mount (initial store)) es"

text \<open>The events that edit the search query.\<close>

fun is_edit :: "mf_event \<Rightarrow> bool" where
  "is_edit (ChangeSearch v) = True"
| "is_edit (ClickResult item) = True"
| "is_edit e = False"


text \<open>The sign-in side of the application, in the same way.\<close>

datatype app_event =
    SessionSettled "js_error + auth_user"
  | GoogleCredential string
  | GoogleSettled "js_error + auth_user"
  | Logout
  | LogoutSettled "js_error + bool"

fun app_step :: "app \<Rightarrow> app_event \<Rightarrow> app" where
  "app_step a (SessionSettled res) = session_done res a"
| "app_step a (GoogleCredential c) = handleGoogleCredential c a"
| "app_step a (GoogleSettled res) = handleGoogleCredential_done res a"
| "app_step a Logout = handleLogout a"
| "app_step a (LogoutSettled res) = handleLogout_done res a"

definition app_run :: "app_event list \<Rightarrow> app" where
  "app_run es = foldl app_step (session_effect app_initial) es"


section \<open>The endpoints of the specification\<close>

text \<open>
  The specification lists seven endpoints. \<open>spec_endpoint\<close> reads a request the way a
  server routing that list would: the method, the path up to the question mark, and the
  names of the query parameters, with a numeric \<open>limit\<close>.
\<close>

datatype endpoint =
    GET_topics
  | GET_entries
  | GET_entry
  | GET_entries_search
  | POST_auth_google
  | GET_auth_me
  | POST_auth_logout

fun split_on :: "char \<Rightarrow> string \<Rightarrow> string list" where
  "split_on c [] = [] # []"
| "split_on c (x # xs) =
     (if x = c then [] # split_on c xs
      else (case split_on c xs of [] \<Rightarrow> [x] # [] | y # ys \<Rightarrow> (x # y) # ys))"

definition query_params :: "string \<Rightarrow> (string \<times> string) list" where
  "query_params qs =
     map (\<lambda>kv. (takeWhile (\<lambda>c. c \<noteq> CHR ''='') kv, drop 1 (dropWhile (\<lambda>c. c \<noteq> CHR ''='') kv)))
       (split_on CHR ''&'' qs)"

definition is_digits :: "string \<Rightarrow> bool" where
  "is_digits x = (x \<noteq> [] \<and> list_all (\<lambda>c. c \<in> set ''0123456789'') x)"

definition is_integer :: "string \<Rightarrow> bool" where
  "is_integer x = (case x of [] \<Rightarrow> False | c # cs \<Rightarrow> if c = CHR ''-'' then is_digits cs else is_digits x)"

text \<open>The characters \<open>encodeURIComponent\<close> can produce.\<close>

definition is_url_encoded :: "string \<Rightarrow> bool" where
  "is_url_encoded x = list_all (\<lambda>c. unreserved c \<or> c = CHR ''%'') x"

definition spec_endpoint :: "request \<Rightarrow> endpoint option" where
  "spec_endpoint r =
     (case meth r of
        GET \<Rightarrow>
          if path r = ''/topics'' then Some GET_topics
          else if path r = ''/auth/me'' then Some GET_auth_me
          else
            (case strip_prefix ''/entries?'' (path r) of
               Some qs \<Rightarrow>
                 (case query_params qs of
                    [(k1, v1), (k2, v2)] \<Rightarrow>
                      if k1 = ''topic_id'' \<and> k2 = ''limit'' \<and> is_digits v2
                      then Some GET_entries else None
                  | _ \<Rightarrow> None)
             | None \<Rightarrow>
                 (case strip_prefix ''/entries/search?'' (path r) of
                    Some qs \<Rightarrow>
                      (case query_params qs of
                         [(k1, v1), (k2, v2)] \<Rightarrow>
                           if k1 = ''q'' \<and> is_url_encoded v1 \<and> k2 = ''limit'' \<and> is_digits v2
                           then Some GET_entries_search else None
                       | _ \<Rightarrow> None)
                  | None \<Rightarrow>
                      (case strip_prefix ''/entries/'' (path r) of
                         Some x \<Rightarrow> if is_integer x then Some GET_entry else None
                       | None \<Rightarrow> None)))
      | POST \<Rightarrow>
          if path r = ''/auth/google'' then Some POST_auth_google
          else if path r = ''/auth/logout'' then Some POST_auth_logout
          else None)"

text \<open>The endpoints of every request of every run of the two components.\<close>

definition consumed_endpoints ::
  "(string \<Rightarrow> js_value option) \<Rightarrow> (string \<rightharpoonup> string) \<Rightarrow> endpoint option set" where
  "consumed_endpoints parse store =
     (\<Union>es. spec_endpoint ` set (requests (mf_run parse store es))) \<union>
     (\<Union>es. spec_endpoint ` set (app_requests (app_run es)))"


section \<open>Invariants\<close>

text \<open>The card index points into the entries, or is 0 when there are none.\<close>

definition index_ok :: "main_flashcard \<Rightarrow> bool" where
  "index_ok s =
     (0 \<le> currentIndex s \<and> (currentIndex s < int (length (entries s)) \<or> currentIndex s = 0))"

text \<open>Your Topics holds ids of known topics only.\<close>

definition your_topics_known :: "main_flashcard \<Rightarrow> bool" where
  "your_topics_known s = (set (yourTopicIds s) \<subseteq> topic_id ` set (topics s))"

text \<open>
  A pending search timeout is due 250 ms after the last change of the query, and it
  captured the trimmed query, which is not blank.
\<close>

definition timer_ok :: "main_flashcard \<Rightarrow> bool" where
  "timer_ok s =
     (case searchTimer s of
        None \<Rightarrow> True
      | Some (due, q) \<Rightarrow>
          due = queryChangedAt s + 250 \<and> q = js_trim (searchQuery s) \<and> q \<noteq> [])"


text \<open>
  Repeats in Your Topics. \<open>saved_numbers\<close> lists the numbers that \<open>savedIds.filter\<close>
  can keep from a parsed value; \<open>no_repeats\<close> says that a stored text, once parsed, lists
  no number twice (a text that does not parse is replaced by the empty array on load).
\<close>

fun number_of :: "js_value \<Rightarrow> int list" where
  "number_of (JNum n) = [n]"
| "number_of v = []"

fun saved_numbers :: "js_value \<Rightarrow> int list" where
  "saved_numbers (JArr xs) = concat (map number_of xs)"
| "saved_numbers v = []"

definition no_repeats :: "(string \<Rightarrow> js_value option) \<Rightarrow> string \<Rightarrow> bool" where
  "no_repeats parse raw =
     (case parse raw of None \<Rightarrow> True | Some v \<Rightarrow> distinct (saved_numbers v))"

definition your_topics_distinct ::
  "(string \<Rightarrow> js_value option) \<Rightarrow> main_flashcard \<Rightarrow> bool" where
  "your_topics_distinct parse s =
     (distinct (yourTopicIds s) \<and>
      (\<forall>raw. localStorage s YOUR_TOPICS_KEY = Some raw \<longrightarrow> no_repeats parse raw))"


section \<open>Sample data\<close>

definition no_parse :: "string \<Rightarrow> js_value option" where
  "no_parse x = None"

definition card1 :: entry_out where
  "card1 = \<lparr>entry_id = 1, headword = ''cat'', meaning_en = ''a pet'', meaning_es = ''gato''\<rparr>"

definition card2 :: entry_out where
  "card2 = \<lparr>entry_id = 2, headword = ''dog'', meaning_en = ''a friend'', meaning_es = ''perro''\<rparr>"

definition card3 :: entry_out where
  "card3 = \<lparr>entry_id = 3, headword = ''owl'', meaning_en = ''a bird'', meaning_es = ''buho''\<rparr>"

definition detail1 :: entry_detail where
  "detail1 =
     \<lparr>entry_id = 1, headword = ''cat'', meaning_en = ''a pet'', meaning_es = ''gato'',
      examples = []\<rparr>"

text \<open>Three cards loaded, the first one shown.\<close>

definition three_cards :: main_flashcard where
  "three_cards = mf_run no_parse Map.empty [EntriesSettled (Inr [card1, card2, card3])]"

text \<open>Two detail requests issued, for the first and then the second card.\<close>

definition two_requests :: main_flashcard where
  "two_requests = foldl (mf_step no_parse) three_cards [DetailEffect, Next, DetailEffect]"


text \<open>A response with status 500, and a response that serves a value.\<close>

definition server_error :: "'a response" where
  "server_error = \<lparr>ok = False, status = 500, json = Inl NoMessage\<rparr>"

definition served :: "'a \<Rightarrow> 'a response" where
  "served x = \<lparr>ok = True, status = 200, json = Inr x\<rparr>"


text \<open>Topics, as \<open>GET /topics\<close> may return them.\<close>

definition mixed_topic :: topic where
  "mixed_topic = \<lparr>topic_id = 1, topic_name = ''Mixed'', is_suggested = True\<rparr>"

definition travel_topic :: topic where
  "travel_topic = \<lparr>topic_id = 2, topic_name = ''Travel'', is_suggested = True\<rparr>"

definition zero_topic :: topic where
  "zero_topic = \<lparr>topic_id = 0, topic_name = ''Mixed'', is_suggested = False\<rparr>"

text \<open>
  Local storage left by an earlier visit, naming a topic that no longer exists, and what
  \<open>JSON.parse\<close> makes of that text.
\<close>

definition stale_store :: "string \<rightharpoonup> string" where
  "stale_store = Map.empty(YOUR_TOPICS_KEY \<mapsto> ''[1,99]'')"

definition stale_parse :: "string \<Rightarrow> js_value option" where
  "stale_parse x = (if x = ''[1,99]'' then Some (JArr [JNum 1, JNum 99]) else None)"

text \<open>A search result whose primary topic is not among the topics loaded at the start.\<close>

definition cooking_result :: search_entry where
  "cooking_result =
     \<lparr>entry_id = 40, headword = ''whisk'', meaning_en = ''to beat'', meaning_es = ''batir'',
      primary_topic = Some (7, ''Cooking''), topic_ids = Some [7]\<rparr>"

text \<open>The topics loaded on a first visit.\<close>

definition first_visit :: main_flashcard where
  "first_visit =
     mf_run no_parse Map.empty [TopicsSettled (Inr [travel_topic, mixed_topic])]"


text \<open>A search result whose primary topic is one of the topics loaded.\<close>

definition travel_result :: search_entry where
  "travel_result =
     \<lparr>entry_id = 41, headword = ''ticket'', meaning_en = ''a pass'', meaning_es = ''boleto'',
      primary_topic = Some (2, ''Travel''), topic_ids = Some [2]\<rparr>"

text \<open>A visit that finds the stale local storage.\<close>

definition stale_visit :: main_flashcard where
  "stale_visit = mf_run stale_parse stale_store [TopicsSettled (Inr [mixed_topic])]"


text \<open>A query typed in two bursts, then left alone for 250 ms.\<close>

definition typed :: main_flashcard where
  "typed = mf_run no_parse Map.empty
     [ChangeSearch ''ca'', Elapse 100, ChangeSearch ''cat '', Elapse 250]"


text \<open>
  A first visit with the first card of the default topic on display, then another topic
  chosen in the modal, and the card flipped by the user while the entries of that topic
  are on their way.
\<close>

definition flipped_during_load :: main_flashcard where
  "flipped_during_load =
     mf_run no_parse Map.empty
       [TopicsSettled (Inr [travel_topic, mixed_topic]), EntriesEffect,
        EntriesSettled (Inr [card1, card2, card3]), DetailEffect, DetailSettled 1 (Inr detail1),
        SelectTopic 2, EntriesEffect, Flip, EntriesSettled (Inr [card3])]"


text \<open>
  A browser whose storage already holds an array with a repeated id. Then a first visit
  with empty storage in which a topic is added, and a second visit that starts from the
  storage the first one left.
\<close>

definition repeat_store :: "string \<rightharpoonup> string" where
  "repeat_store = Map.empty(YOUR_TOPICS_KEY \<mapsto> ''[1,1,2]'')"

definition repeat_parse :: "string \<Rightarrow> js_value option" where
  "repeat_parse x = (if x = ''[1,1,2]'' then Some (JArr [JNum 1, JNum 1, JNum 2]) else None)"

definition repeat_visit :: main_flashcard where
  "repeat_visit = mf_run repeat_parse repeat_store [TopicsSettled (Inr [mixed_topic, travel_topic])]"

definition written_parse :: "string \<Rightarrow> js_value option" where
  "written_parse x =
     (if x = ''[1]'' then Some (JArr [JNum 1])
      else if x = ''[1,2]'' then Some (JArr [JNum 1, JNum 2])
      else None)"

definition written_visit :: main_flashcard where
  "written_visit =
     mf_run written_parse Map.empty [TopicsSettled (Inr [travel_topic, mixed_topic]), AddTopic 2]"

definition second_visit :: main_flashcard where
  "second_visit =
     mf_run written_parse (localStorage written_visit)
       [TopicsSettled (Inr [travel_topic, mixed_topic]), AddTopic 2]"


text \<open>
  A first visit: the topics arrive, the entries of the default topic are requested and
  one card arrives, and its detail is requested. Then, with that request still
  unanswered, a topic without entries is selected in the modal and its empty list arrives.
\<close>

definition detail_pending :: main_flashcard where
  "detail_pending =
     mf_run no_parse Map.empty
       [TopicsSettled (Inr [travel_topic, mixed_topic]), EntriesEffect,
        EntriesSettled (Inr [card1]), DetailEffect]"

definition topic_emptied :: main_flashcard where
  "topic_emptied =
     foldl (mf_step no_parse) detail_pending
       [SelectTopic 2, EntriesEffect, EntriesSettled (Inr []), DetailEffect]"


section \<open>Verified properties\<close>

subsection \<open>Evaluation of the sample data\<close>

lemma trim_empty: "js_trim [] = []"
  by (simp add: js_trim_def trim_left.simps js_whitespace_def)

lemma trim_samples:
  "js_trim ''a'' = ''a''" "js_trim ''ca'' = ''ca''" "js_trim ''cat '' = ''cat''"
  "js_trim ''dog'' = ''dog''" "js_trim '' '' = []" "js_trim [CHR 0xC2, CHR 0xA0] = []"
  by (simp_all add: js_trim_def trim_left.simps js_whitespace_def)

lemmas mount_defs =
  mount_def initial_def loadTopics_start_def loadEntries_effect_def truthy_def
  pendingJump_effect_def detail_effect_def js_index_def search_effect_def trim_empty

lemma three_cards_eval:
  "entries three_cards = [card1, card2, card3]" "currentIndex three_cards = 0"
  "entryDetailReqRef three_cards = 0"
  by (simp_all add: three_cards_def mf_run_def mount_defs loadEntries_done_def)

lemma two_requests_ref: "entryDetailReqRef two_requests = 2"
  by (simp add: two_requests_def three_cards_eval detail_effect_def js_index_def goNext_def
      canNext_def)


subsection \<open>The request counter\<close>

lemmas step_defs =
  loadTopics_done_def loadEntries_effect_def loadEntries_done_def pendingJump_effect_def
  pendingJump_done_def detail_effect_def detail_done_def onChange_search_def
  searchQuery_rerender_def search_effect_def search_cleanup_def onFocus_search_def
  onDocMouseDown_def search_timeout_def search_done_def selectSearchResult_def
  selectSearchResult_done_def addToYourTopics_def resetYourTopics_def onSelectTopic_def
  goPrev_def goNext_def canPrev_def canNext_def onFlip_def Let_def

lemma reqref_step: "entryDetailReqRef s \<le> entryDetailReqRef (mf_step parse s ev)"
  by (cases ev) (auto simp: step_defs split: sum.splits option.splits)

lemma reqref_foldl: "entryDetailReqRef s \<le> entryDetailReqRef (foldl (mf_step parse) s es)"
proof (induction es arbitrary: s)
  case Nil
  show ?case by simp
next
  case (Cons e es)
  have "entryDetailReqRef s \<le> entryDetailReqRef (mf_step parse s e)"
    by (rule reqref_step)
  also have "\<dots> \<le> entryDetailReqRef (foldl (mf_step parse) (mf_step parse s e) es)"
    by (rule Cons.IH)
  finally show ?case by simp
qed


subsection \<open>Card navigation\<close>

lemma findIndex_bounds: "- 1 \<le> findIndex P xs \<and> findIndex P xs < int (length xs)"
  by (induction xs) (auto simp: Let_def)

lemma index_ok_step: "index_ok s \<Longrightarrow> index_ok (mf_step parse s ev)"
proof (cases ev)
  case (TopicsSettled res)
  assume "index_ok s"
  then show ?thesis using TopicsSettled
    by (auto simp: index_ok_def loadTopics_done_def Let_def split: sum.splits)
next
  case PendingJumpEffect
  assume "index_ok s"
  then show ?thesis
    using PendingJumpEffect
      findIndex_bounds [of "\<lambda>e. entry_id e = the (pendingJumpEntryId s)" "entries s"]
    by (auto simp: index_ok_def pendingJump_effect_def Let_def)
next
  case (ClickResult item)
  assume "index_ok s"
  then show ?thesis
    using ClickResult findIndex_bounds [of "\<lambda>e. entry_id e = entry_id item" "entries s"]
    by (auto simp: index_ok_def selectSearchResult_def searchQuery_rerender_def
        search_effect_def search_cleanup_def addToYourTopics_def Let_def)
qed (auto simp: index_ok_def step_defs split: sum.splits option.splits)

lemma index_ok_foldl: "index_ok s \<Longrightarrow> index_ok (foldl (mf_step parse) s es)"
  by (induction es arbitrary: s) (simp_all add: index_ok_step)

text \<open>Every state of every run has its card index in bounds.\<close>

lemma index_ok_mount: "index_ok (mount (initial store))"
  by (simp add: index_ok_def mount_defs)

lemma index_ok_run: "index_ok (mf_run parse store es)"
  by (simp add: mf_run_def index_ok_foldl index_ok_mount)

text \<open>
  C9. In a state with entries whose card index is in bounds, as it is in every state of
  every run, \<open>goPrev\<close> and \<open>goNext\<close> leave the index within \<open>[0, entries.length - 1]\<close>:
  \<open>goPrev\<close> does nothing at index 0, \<open>goNext\<close> does nothing at the last index, and
  otherwise they move the index by exactly one and unflip the card.
\<close>

theorem navigation_in_bounds:
  assumes "index_ok s" and "entries s \<noteq> []"
  shows
    "0 \<le> currentIndex (goPrev s) \<and>
     currentIndex (goPrev s) \<le> int (length (entries (goPrev s))) - 1 \<and>
     0 \<le> currentIndex (goNext s) \<and>
     currentIndex (goNext s) \<le> int (length (entries (goNext s))) - 1 \<and>
     (currentIndex s = 0 \<longrightarrow> goPrev s = s) \<and>
     (currentIndex s = int (length (entries s)) - 1 \<longrightarrow> goNext s = s) \<and>
     (currentIndex s \<noteq> 0 \<longrightarrow>
        goPrev s = s\<lparr>isFlipped := False, currentIndex := currentIndex s - 1\<rparr>) \<and>
     (currentIndex s \<noteq> int (length (entries s)) - 1 \<longrightarrow>
        goNext s = s\<lparr>isFlipped := False, currentIndex := currentIndex s + 1\<rparr>)"
proof -
  obtain n where "length (entries s) = Suc n"
    using assms(2) by (cases "entries s") auto
  with assms(1) show ?thesis
    by (auto simp: index_ok_def goPrev_def goNext_def canPrev_def canNext_def)
qed

theorem navigation_in_bounds_witness:
  "index_ok three_cards \<and> entries three_cards \<noteq> [] \<and> currentIndex three_cards = 0 \<and>
   goPrev three_cards = three_cards \<and>
   currentIndex (goNext three_cards) = 1 \<and>
   \<not> isFlipped (goNext three_cards) \<and>
   currentIndex (goPrev (goNext three_cards)) = 0 \<and>
   currentIndex (goNext (goNext three_cards)) = 2 \<and>
   goNext (goNext (goNext three_cards)) = goNext (goNext three_cards)"
proof -
  have ok0: "index_ok three_cards"
    unfolding three_cards_def by (rule index_ok_run)
  have ok1: "index_ok (goNext three_cards)"
    using index_ok_step [OF ok0, of no_parse Next] by simp
  have ok2: "index_ok (goNext (goNext three_cards))"
    using index_ok_step [OF ok1, of no_parse Next] by simp
  have ne0: "entries three_cards \<noteq> []"
    by (simp add: three_cards_eval)
  have ne1: "entries (goNext three_cards) \<noteq> []"
    by (simp add: goNext_def three_cards_eval)
  have ne2: "entries (goNext (goNext three_cards)) \<noteq> []"
    by (simp add: goNext_def three_cards_eval)
  show ?thesis
    using navigation_in_bounds [OF ok0 ne0] navigation_in_bounds [OF ok1 ne1]
      navigation_in_bounds [OF ok2 ne2] ok0 ne0
    by (simp add: three_cards_eval)
qed


subsection \<open>Selecting a topic\<close>

text \<open>
  C2, as the code has it. Changing the selected topic to an id \<open>t\<close> other than 0 runs the
  entries effect, which unflips the card at once and requests the entries of \<open>t\<close>. When
  the request succeeds, in whatever state the component then is, the entries are replaced
  and the card index is set to 0; the flip of the card is left as it is at that moment, so
  the card is unflipped on success when it was not flipped in between. The first part is
  the effect after any change of the selected topic, the second is the selection in the
  topic modal.
\<close>

theorem select_topic_resets_index:
  assumes "t \<noteq> 0"
  shows
    "(selectedTopicId new = Some t \<and> selectedTopicId old \<noteq> Some t \<longrightarrow>
        requests (selectedTopic_rerender old new)
          = requests new @ [apiGet_request (entries_path t)] \<and>
        \<not> isFlipped (selectedTopic_rerender old new)) \<and>
     (selectedTopicId s \<noteq> Some t \<longrightarrow>
        selectedTopicId (select_topic t s) = Some t \<and>
        requests (select_topic t s) = requests s @ [apiGet_request (entries_path t)] \<and>
        \<not> isFlipped (select_topic t s) \<and>
        \<not> isFlipped (loadEntries_done (Inr list) (select_topic t s))) \<and>
     entries (loadEntries_done (Inr list) s') = list \<and>
     currentIndex (loadEntries_done (Inr list) s') = 0 \<and>
     isFlipped (loadEntries_done (Inr list) s') = isFlipped s'"
  using assms
  by (auto simp: select_topic_def selectedTopic_rerender_def onSelectTopic_def
      loadEntries_effect_def loadEntries_done_def truthy_def)

lemma two_requests_eval:
  "selectedTopicId two_requests = None" "currentIndex two_requests = 1"
  "requests two_requests =
     [apiGet_request ''/topics'', apiGet_request (entry_path 1), apiGet_request (entry_path 2)]"
  by (simp_all add: two_requests_def three_cards_def mf_run_def mount_defs loadEntries_done_def
      goNext_def canNext_def card1_def card2_def card3_def)

theorem select_topic_resets_index_witness:
  "(5::int) \<noteq> 0 \<and> selectedTopicId two_requests \<noteq> Some 5 \<and>
   selectedTopicId (select_topic 5 two_requests) = Some 5 \<and>
   requests (select_topic 5 two_requests)
     = requests two_requests @ [apiGet_request (entries_path 5)] \<and>
   \<not> isFlipped (select_topic 5 two_requests) \<and>
   currentIndex two_requests = 1 \<and>
   currentIndex (loadEntries_done (Inr [card3]) (select_topic 5 two_requests)) = 0 \<and>
   entries (loadEntries_done (Inr [card3]) (select_topic 5 two_requests)) = [card3] \<and>
   \<not> isFlipped (loadEntries_done (Inr [card3]) (select_topic 5 two_requests))"
  using select_topic_resets_index
    [of 5 "onSelectTopic 5 two_requests" two_requests two_requests "[card3]"
      "select_topic 5 two_requests"]
  by (simp add: two_requests_eval)

text \<open>
  The card is not always unflipped when the entries arrive: it stays on display while
  they load, and a flip in that time is kept. Here the first card is shown, topic 2 is
  chosen, the card is flipped and then the entries arrive: the index is 0 and the card is
  flipped.
\<close>

theorem select_topic_flip_counterexample:
  "selectedTopicId flipped_during_load = Some 2 \<and>
   requests flipped_during_load
     = [apiGet_request ''/topics'', apiGet_request ''/entries?topic_id=1&limit=2000'',
        apiGet_request ''/entries/1'', apiGet_request ''/entries?topic_id=2&limit=2000''] \<and>
   entries flipped_during_load = [card3] \<and>
   currentIndex flipped_during_load = 0 \<and>
   entryDetail flipped_during_load = Some detail1 \<and>
   errMsg flipped_during_load = None \<and>
   isFlipped flipped_during_load"
  by (simp add: flipped_during_load_def mf_run_def mount_defs loadTopics_done_def Let_def
      load_savedIds_def no_parse_def defaultId_def travel_topic_def mixed_topic_def
      toLowerCase_def lower_char_def loadEntries_done_def detail_effect_def detail_done_def
      onSelectTopic_def loadEntries_effect_def onFlip_def card1_def entries_path_def
      entry_path_def show_int_def show_nat.simps digit_char_def)


subsection \<open>Failed requests\<close>

lemma show_nat_500: "show_nat 500 = ''500''"
  by (simp add: show_nat.simps digit_char_def)

text \<open>
  C5, as the code has it. \<open>apiGet\<close> and \<open>apiPost\<close> reject with \<open>API error {status}\<close> when the
  response is not ok; with an ok response they settle as \<open>res.json()\<close> does, and they
  reject as \<open>fetch\<close> does when it rejects. A rejected load of the topics, of the entries or
  of an entry detail whose request id is still current sets \<open>errMsg\<close> to the error's message
  and issues no further request. A rejected search does not touch \<open>errMsg\<close>: it empties the
  results and opens the dropdown.
\<close>

theorem fetch_failure_handling:
  "(\<not> ok res \<longrightarrow>
      apiGet (Resolves res) = Inl (JsError (''API error '' @ show_nat (status res))) \<and>
      apiPost (Resolves res) = Inl (JsError (''API error '' @ show_nat (status res)))) \<and>
   (ok res \<longrightarrow> apiGet (Resolves res) = json res \<and> apiPost (Resolves res) = json res) \<and>
   apiGet (Rejects e) = Inl e \<and> apiPost (Rejects e) = Inl e \<and>
   message_or (JsError m) fallback = m \<and>
   errMsg (loadTopics_done parse (Inl e) s) = Some (message_or e ''Failed to load topics'') \<and>
   requests (loadTopics_done parse (Inl e) s) = requests s \<and>
   errMsg (loadEntries_done (Inl e) s) = Some (message_or e ''Failed to load entries'') \<and>
   requests (loadEntries_done (Inl e) s) = requests s \<and>
   (r = entryDetailReqRef s \<longrightarrow>
      errMsg (detail_done r (Inl e) s) = Some (message_or e ''Failed to load entry detail'') \<and>
      requests (detail_done r (Inl e) s) = requests s \<and>
      errMsg (pendingJump_done r (Inl e) s) = Some (message_or e ''Failed to open entry'') \<and>
      requests (pendingJump_done r (Inl e) s) = requests s \<and>
      errMsg (selectSearchResult_done r (Inl e) s) = Some (message_or e ''Failed to open entry'') \<and>
      requests (selectSearchResult_done r (Inl e) s) = requests s) \<and>
   search_done (Inl e) s = s\<lparr>searchResults := [], searchOpen := True, searchLoading := False\<rparr>"
  by (simp add: apiGet_def apiPost_def message_or_def loadTopics_done_def loadEntries_done_def
      detail_done_def pendingJump_done_def selectSearchResult_done_def search_done_def)

theorem fetch_failure_handling_witness:
  "\<not> ok (server_error :: entry_out list response) \<and>
   apiGet (Resolves (server_error :: entry_out list response)) = Inl (JsError ''API error 500'') \<and>
   errMsg (loadEntries_done (apiGet (Resolves server_error)) three_cards) = Some ''API error 500'' \<and>
   ok (served [card1]) \<and>
   apiGet (Resolves (served [card1])) = Inr [card1] \<and>
   2 = entryDetailReqRef two_requests \<and>
   errMsg (detail_done 2 (Inl (JsError ''API error 404'')) two_requests) = Some ''API error 404''"
proof -
  have bad: "\<not> ok (server_error :: entry_out list response)"
    and good: "ok (served [card1])"
    by (simp_all add: server_error_def served_def)
  have cur: "2 = entryDetailReqRef two_requests"
    by (simp add: two_requests_ref)
  note a = fetch_failure_handling [of "server_error :: entry_out list response"
      "JsError ''API error 500''" "''API error 500''" "''Failed to load entries''" no_parse
      three_cards 0]
  note b = fetch_failure_handling [of "served [card1]" "JsError ''API error 404''"
      "''API error 404''" "''Failed to load entry detail''" no_parse two_requests 2]
  have 1: "apiGet (Resolves (server_error :: entry_out list response))
      = Inl (JsError ''API error 500'')"
    using a bad by (elim conjE) (simp add: server_error_def show_nat_500)
  have 2: "errMsg (loadEntries_done (Inl (JsError ''API error 500'')) three_cards)
      = Some ''API error 500''"
    using a by (elim conjE) (simp add: message_or_def)
  have 3: "apiGet (Resolves (served [card1])) = Inr [card1]"
    using b good by (elim conjE) (simp add: served_def)
  have 4: "errMsg (detail_done 2 (Inl (JsError ''API error 404'')) two_requests)
      = Some ''API error 404''"
    using b cur by (elim conjE) (simp add: message_or_def)
  show ?thesis
    using bad good cur 1 2 3 4 by simp
qed

text \<open>
  Not every failure reaches \<open>errMsg\<close>, and not every rejection comes from a response that
  is not ok: a search request answered with status 500 leaves \<open>errMsg\<close> empty, and
  \<open>apiGet\<close> also rejects when \<open>fetch\<close> rejects or when the body of an ok response does
  not parse.
\<close>

theorem search_failure_counterexample:
  "errMsg (search_done (apiGet (Resolves server_error)) three_cards) = None \<and>
   apiGet (Rejects (JsError ''Failed to fetch'') :: entry_out list fetched)
     = Inl (JsError ''Failed to fetch'') \<and>
   apiGet (Resolves \<lparr>ok = True, status = 200, json = Inl (JsError ''Unexpected token'')\<rparr>
            :: entry_out list fetched)
     = Inl (JsError ''Unexpected token'')"
  by (simp add: search_done_def apiGet_def server_error_def three_cards_def mf_run_def
      mount_defs loadEntries_done_def)


subsection \<open>The default topic\<close>

lemma defaultId_known: "defaultId t = Some d \<Longrightarrow> d \<in> topic_id ` set t"
  by (auto simp: defaultId_def find_Some_iff split: option.splits list.splits)

lemma defaultId_char:
  "((\<exists>x \<in> set t. toLowerCase (topic_name x) = ''mixed'') \<longrightarrow>
      (\<exists>i < length t. toLowerCase (topic_name (t ! i)) = ''mixed'' \<and>
         (\<forall>j < i. toLowerCase (topic_name (t ! j)) \<noteq> ''mixed'') \<and>
         defaultId t = Some (topic_id (t ! i)))) \<and>
   ((\<forall>x \<in> set t. toLowerCase (topic_name x) \<noteq> ''mixed'') \<longrightarrow>
      defaultId t = (case t of [] \<Rightarrow> None | x # xs \<Rightarrow> Some (topic_id x)))"
proof (cases "find (\<lambda>x. toLowerCase (topic_name x) = ''mixed'') t")
  case None
  then have "\<forall>x \<in> set t. toLowerCase (topic_name x) \<noteq> ''mixed''"
    by (simp add: find_None_iff)
  with None show ?thesis
    by (auto simp: defaultId_def)
next
  case (Some m)
  then obtain i where "i < length t" "toLowerCase (topic_name (t ! i)) = ''mixed''"
    "m = t ! i" "\<forall>j < i. toLowerCase (topic_name (t ! j)) \<noteq> ''mixed''"
    by (auto simp: find_Some_iff)
  with Some show ?thesis
    by (auto simp: defaultId_def)
qed

lemma valid_number_subset: "set (valid_number valid v) \<subseteq> set valid"
  by (cases v) auto

lemma filter_valid_subset: "filter_valid valid v = Inr ids \<Longrightarrow> set ids \<subseteq> set valid"
  using valid_number_subset by (cases v) fastforce+

lemma no_saved_ids:
  assumes "raw = None \<or> (\<exists>r. raw = Some r \<and> (r = [] \<or> parse r = None \<or> parse r = Some (JArr [])))"
  shows "load_savedIds parse raw = JArr []"
  using assms by (auto simp: load_savedIds_def)

lemma loadTopics_no_saved:
  assumes "load_savedIds parse (localStorage s YOUR_TOPICS_KEY) = JArr []"
  shows "loadTopics_done parse (Inr t) s =
     (case defaultId t of
        None \<Rightarrow> s\<lparr>topics := t, yourTopicIds := [], selectedTopicId := None, loading := False\<rparr>
      | Some d \<Rightarrow>
          if d = 0 then s\<lparr>topics := t, yourTopicIds := [], selectedTopicId := Some 0, loading := False\<rparr>
          else s\<lparr>topics := t,
                 localStorage := (localStorage s)(YOUR_TOPICS_KEY \<mapsto> JSON_stringify [d]),
                 yourTopicIds := [d], selectedTopicId := Some d, loading := False\<rparr>)"
  using assms defaultId_known [of t]
  by (auto simp: loadTopics_done_def Let_def truthy_def split: option.splits)

text \<open>
  What the initial load and the reset do when the default topic's id is not 0, or when
  there are no topics. Local storage holds no saved ids (the key is missing, its text is
  empty or does not parse, or it parses to the empty array) and the topics were fetched.
  The default topic is the first topic whose name lower-cases to \<open>mixed\<close>, or the first
  topic when there is none. With an id other than 0, Your Topics becomes that single id,
  which is selected and stored; with no topics Your Topics is empty and nothing is
  selected. \<open>resetYourTopics\<close> on the same topics gives the same Your Topics and selection.
\<close>

theorem default_topic_initialization:
  assumes "localStorage s YOUR_TOPICS_KEY = None \<or>
           (\<exists>r. localStorage s YOUR_TOPICS_KEY = Some r \<and>
                (r = [] \<or> parse r = None \<or> parse r = Some (JArr [])))"
  shows
    "((\<exists>x \<in> set t. toLowerCase (topic_name x) = ''mixed'') \<longrightarrow>
        (\<exists>i < length t. toLowerCase (topic_name (t ! i)) = ''mixed'' \<and>
           (\<forall>j < i. toLowerCase (topic_name (t ! j)) \<noteq> ''mixed'') \<and>
           defaultId t = Some (topic_id (t ! i)))) \<and>
     ((\<forall>x \<in> set t. toLowerCase (topic_name x) \<noteq> ''mixed'') \<longrightarrow>
        defaultId t = (case t of [] \<Rightarrow> None | x # xs \<Rightarrow> Some (topic_id x))) \<and>
     (\<forall>d. defaultId t = Some d \<and> d \<noteq> 0 \<longrightarrow>
        yourTopicIds (loadTopics_done parse (Inr t) s) = [d] \<and>
        selectedTopicId (loadTopics_done parse (Inr t) s) = Some d \<and>
        localStorage (loadTopics_done parse (Inr t) s) YOUR_TOPICS_KEY = Some (JSON_stringify [d]) \<and>
        (topics s' = t \<longrightarrow>
           yourTopicIds (resetYourTopics s') = [d] \<and>
           selectedTopicId (resetYourTopics s') = Some d \<and>
           localStorage (resetYourTopics s') YOUR_TOPICS_KEY = Some (JSON_stringify [d]))) \<and>
     (t = [] \<longrightarrow>
        yourTopicIds (loadTopics_done parse (Inr t) s) = [] \<and>
        selectedTopicId (loadTopics_done parse (Inr t) s) = None \<and>
        (topics s' = t \<longrightarrow>
           yourTopicIds (resetYourTopics s') = [] \<and>
           selectedTopicId (resetYourTopics s') = None))"
proof -
  have saved: "load_savedIds parse (localStorage s YOUR_TOPICS_KEY) = JArr []"
    using assms by (rule no_saved_ids)
  have 1: "((\<exists>x \<in> set t. toLowerCase (topic_name x) = ''mixed'') \<longrightarrow>
        (\<exists>i < length t. toLowerCase (topic_name (t ! i)) = ''mixed'' \<and>
           (\<forall>j < i. toLowerCase (topic_name (t ! j)) \<noteq> ''mixed'') \<and>
           defaultId t = Some (topic_id (t ! i)))) \<and>
     ((\<forall>x \<in> set t. toLowerCase (topic_name x) \<noteq> ''mixed'') \<longrightarrow>
        defaultId t = (case t of [] \<Rightarrow> None | x # xs \<Rightarrow> Some (topic_id x)))"
    by (rule defaultId_char)
  have 2: "\<forall>d. defaultId t = Some d \<and> d \<noteq> 0 \<longrightarrow>
        yourTopicIds (loadTopics_done parse (Inr t) s) = [d] \<and>
        selectedTopicId (loadTopics_done parse (Inr t) s) = Some d \<and>
        localStorage (loadTopics_done parse (Inr t) s) YOUR_TOPICS_KEY = Some (JSON_stringify [d]) \<and>
        (topics s' = t \<longrightarrow>
           yourTopicIds (resetYourTopics s') = [d] \<and>
           selectedTopicId (resetYourTopics s') = Some d \<and>
           localStorage (resetYourTopics s') YOUR_TOPICS_KEY = Some (JSON_stringify [d]))"
    by (simp add: loadTopics_no_saved [OF saved] resetYourTopics_def truthy_def Let_def)
  have 3: "t = [] \<longrightarrow>
        yourTopicIds (loadTopics_done parse (Inr t) s) = [] \<and>
        selectedTopicId (loadTopics_done parse (Inr t) s) = None \<and>
        (topics s' = t \<longrightarrow>
           yourTopicIds (resetYourTopics s') = [] \<and>
           selectedTopicId (resetYourTopics s') = None)"
    by (simp add: loadTopics_no_saved [OF saved] resetYourTopics_def truthy_def Let_def
        defaultId_def)
  from 1 2 3 show ?thesis by blast
qed


lemma first_visit_eval:
  "topics first_visit = [travel_topic, mixed_topic]" "yourTopicIds first_visit = [1]"
  "selectedTopicId first_visit = Some 1"
  "localStorage first_visit YOUR_TOPICS_KEY = Some ''[1]''"
  by (simp_all add: first_visit_def mf_run_def mount_defs loadTopics_done_def Let_def
      load_savedIds_def defaultId_def travel_topic_def mixed_topic_def toLowerCase_def
      lower_char_def JSON_stringify_def show_int_def show_nat.simps digit_char_def)

lemma defaultId_sample: "defaultId [travel_topic, mixed_topic] = Some 1"
  by (simp add: defaultId_def travel_topic_def mixed_topic_def toLowerCase_def lower_char_def)

theorem default_topic_initialization_witness:
  "localStorage (mount (initial Map.empty)) YOUR_TOPICS_KEY = None \<and>
   defaultId [travel_topic, mixed_topic] = Some 1 \<and> (1::int) \<noteq> 0 \<and>
   yourTopicIds first_visit = [1] \<and> selectedTopicId first_visit = Some 1 \<and>
   localStorage first_visit YOUR_TOPICS_KEY = Some (JSON_stringify [1]) \<and>
   topics (addToYourTopics 2 first_visit) = [travel_topic, mixed_topic] \<and>
   yourTopicIds (addToYourTopics 2 first_visit) = [1, 2] \<and>
   yourTopicIds (resetYourTopics (addToYourTopics 2 first_visit)) = [1] \<and>
   selectedTopicId (resetYourTopics (addToYourTopics 2 first_visit)) = Some 1 \<and>
   yourTopicIds (loadTopics_done no_parse (Inr []) (mount (initial Map.empty))) = [] \<and>
   selectedTopicId (loadTopics_done no_parse (Inr []) (mount (initial Map.empty))) = None"
proof -
  have empty: "localStorage (mount (initial Map.empty)) YOUR_TOPICS_KEY = None"
    by (simp add: mount_defs)
  have fv: "first_visit = loadTopics_done no_parse (Inr [travel_topic, mixed_topic])
      (mount (initial Map.empty))"
    by (simp add: first_visit_def mf_run_def)
  have tp: "topics (addToYourTopics 2 first_visit) = [travel_topic, mixed_topic]"
    and yt: "yourTopicIds (addToYourTopics 2 first_visit) = [1, 2]"
    by (simp_all add: addToYourTopics_def first_visit_eval Let_def)
  note a = default_topic_initialization
    [of "mount (initial Map.empty)" no_parse "[travel_topic, mixed_topic]"
      "addToYourTopics 2 first_visit"]
  note b = default_topic_initialization
    [of "mount (initial Map.empty)" no_parse "[]" "addToYourTopics 2 first_visit"]
  show ?thesis
    using a b empty tp yt defaultId_sample by (simp add: fv)
qed

text \<open>
  C10. The initial load with a default topic whose id is 0, and nothing saved: the test
  \<open>savedIds.length === 0 && defaultId\<close> takes the id 0 for no id. The topic is selected,
  by \<open>savedIds[0] ?? defaultId ?? null\<close>, but Your Topics stays empty and nothing is stored;
  \<open>resetYourTopics\<close> then selects nothing at all.
\<close>

theorem default_topic_zero_not_initialized:
  "localStorage (mount (initial Map.empty)) YOUR_TOPICS_KEY = None \<and>
   defaultId [zero_topic] = Some 0 \<and>
   yourTopicIds (loadTopics_done no_parse (Inr [zero_topic]) (mount (initial Map.empty))) = [] \<and>
   selectedTopicId (loadTopics_done no_parse (Inr [zero_topic]) (mount (initial Map.empty)))
     = Some 0 \<and>
   localStorage (loadTopics_done no_parse (Inr [zero_topic]) (mount (initial Map.empty)))
     YOUR_TOPICS_KEY = None \<and>
   yourTopicIds
     (resetYourTopics (loadTopics_done no_parse (Inr [zero_topic]) (mount (initial Map.empty))))
     = [] \<and>
   selectedTopicId
     (resetYourTopics (loadTopics_done no_parse (Inr [zero_topic]) (mount (initial Map.empty))))
     = None"
  by (simp add: mount_defs loadTopics_done_def resetYourTopics_def Let_def load_savedIds_def
      defaultId_def zero_topic_def toLowerCase_def lower_char_def)


subsection \<open>Your Topics and the known topics\<close>

lemma addable_known: "t \<in> set (addable q s) \<Longrightarrow> topic_id t \<in> topic_id ` set (topics s)"
  by (auto simp: addable_def suggested_def allToShow_def filteredAll_def Let_def
      dest: in_set_takeD split: if_splits)

lemma loadTopics_known:
  assumes "yourTopicIds s = []"
  shows "your_topics_known (loadTopics_done parse res s)"
proof (cases res)
  case (Inl e)
  with assms show ?thesis
    by (simp add: your_topics_known_def loadTopics_done_def)
next
  case (Inr t)
  with assms show ?thesis
    using filter_valid_subset
    by (auto simp: your_topics_known_def loadTopics_done_def Let_def
        split: sum.splits dest!: filter_valid_subset)
qed

text \<open>
  C7, as the code has it. After the initial load every id in Your Topics is the id of a
  topic in \<open>topics\<close>. Selecting a topic and resetting keep this; adding keeps it when the id
  added is the id of a known topic, as every id offered by the topic modal is; choosing a
  search result keeps it when the result has no primary topic or a known one.
\<close>

theorem your_topics_subset:
  "(yourTopicIds s = [] \<longrightarrow> your_topics_known (loadTopics_done parse res s)) \<and>
   (your_topics_known s \<longrightarrow> your_topics_known (onSelectTopic t s)) \<and>
   your_topics_known (resetYourTopics s) \<and>
   (your_topics_known s \<and> t \<in> topic_id ` set (topics s) \<longrightarrow>
      your_topics_known (addToYourTopics t s)) \<and>
   (your_topics_known s \<and> x \<in> set (addable q s) \<longrightarrow>
      your_topics_known (addToYourTopics (topic_id x) s)) \<and>
   (your_topics_known s \<and>
    (primary_topic item = None \<or>
     (\<exists>p. primary_topic item = Some p \<and> fst p \<in> topic_id ` set (topics s))) \<longrightarrow>
      your_topics_known (selectSearchResult item s))"
proof -
  have 1: "yourTopicIds s = [] \<longrightarrow> your_topics_known (loadTopics_done parse res s)"
    by (simp add: loadTopics_known)
  have 2: "your_topics_known s \<longrightarrow> your_topics_known (onSelectTopic t s)"
    by (simp add: your_topics_known_def onSelectTopic_def)
  have 3: "your_topics_known (resetYourTopics s)"
    using defaultId_known [of "topics s"]
    by (auto simp: your_topics_known_def resetYourTopics_def Let_def truthy_def
        split: option.splits)
  have 4: "your_topics_known s \<and> u \<in> topic_id ` set (topics s) \<longrightarrow>
      your_topics_known (addToYourTopics u s)" for u
    by (auto simp: your_topics_known_def addToYourTopics_def Let_def)
  have 5: "your_topics_known s \<and> x \<in> set (addable q s) \<longrightarrow>
      your_topics_known (addToYourTopics (topic_id x) s)"
    using 4 [of "topic_id x"] addable_known [of x q s] by blast
  have 6: "your_topics_known s \<and>
    (primary_topic item = None \<or>
     (\<exists>p. primary_topic item = Some p \<and> fst p \<in> topic_id ` set (topics s))) \<longrightarrow>
      your_topics_known (selectSearchResult item s)"
    by (cases "primary_topic item")
      (auto simp: your_topics_known_def selectSearchResult_def addToYourTopics_def Let_def
        truthy_def)
  from 1 2 3 4 [of t] 5 6 show ?thesis by blast
qed

lemma first_visit_known: "your_topics_known first_visit"
  by (simp add: your_topics_known_def first_visit_eval mixed_topic_def)

theorem your_topics_subset_witness:
  "yourTopicIds (mount (initial Map.empty)) = [] \<and>
   your_topics_known first_visit \<and>
   your_topics_known (onSelectTopic 2 first_visit) \<and>
   your_topics_known (resetYourTopics first_visit) \<and>
   2 \<in> topic_id ` set (topics first_visit) \<and>
   travel_topic \<in> set (addable [] first_visit) \<and>
   your_topics_known (addToYourTopics 2 first_visit) \<and>
   yourTopicIds (addToYourTopics 2 first_visit) = [1, 2] \<and>
   primary_topic travel_result = Some (2, ''Travel'') \<and>
   your_topics_known (selectSearchResult travel_result first_visit) \<and>
   yourTopicIds (selectSearchResult travel_result first_visit) = [1, 2]"
proof -
  have e: "yourTopicIds (mount (initial Map.empty)) = []"
    by (simp add: mount_defs)
  have fv: "first_visit = loadTopics_done no_parse (Inr [travel_topic, mixed_topic])
      (mount (initial Map.empty))"
    by (simp add: first_visit_def mf_run_def)
  have k: "2 \<in> topic_id ` set (topics first_visit)"
    by (simp add: first_visit_eval travel_topic_def)
  have ad: "travel_topic \<in> set (addable [] first_visit)"
    by (simp add: addable_def suggested_def allToShow_def filteredAll_def trim_empty
        toLowerCase_def first_visit_eval travel_topic_def mixed_topic_def)
  have p: "primary_topic travel_result = Some (2, ''Travel'')"
    by (simp add: travel_result_def)
  note a = your_topics_subset [of "mount (initial Map.empty)" no_parse
      "Inr [travel_topic, mixed_topic]" 2 travel_topic "[]" travel_result]
  have known: "your_topics_known first_visit"
    using a e by (simp add: fv)
  note b = your_topics_subset [of first_visit no_parse
      "Inr [travel_topic, mixed_topic]" 2 travel_topic "[]" travel_result]
  have 1: "your_topics_known (onSelectTopic 2 first_visit)"
    and 2: "your_topics_known (resetYourTopics first_visit)"
    and 3: "your_topics_known (addToYourTopics 2 first_visit)"
    and 4: "your_topics_known (selectSearchResult travel_result first_visit)"
    using b known k ad p by simp_all
  have 5: "yourTopicIds (addToYourTopics 2 first_visit) = [1, 2]"
    and 6: "yourTopicIds (selectSearchResult travel_result first_visit) = [1, 2]"
    by (simp_all add: addToYourTopics_def selectSearchResult_def travel_result_def
        first_visit_eval truthy_def Let_def)
  show ?thesis
    using e known k ad p 1 2 3 4 5 6 by simp
qed

text \<open>
  A search result whose primary topic was not among the topics fetched at the start
  breaks the inclusion: \<open>selectSearchResult\<close> adds its id unchecked.
\<close>

theorem your_topics_search_counterexample:
  "your_topics_known first_visit \<and>
   \<not> your_topics_known (selectSearchResult cooking_result first_visit) \<and>
   yourTopicIds (selectSearchResult cooking_result first_visit) = [1, 7] \<and>
   map topic_id (topics (selectSearchResult cooking_result first_visit)) = [2, 1]"
  by (simp add: your_topics_known_def first_visit_eval selectSearchResult_def cooking_result_def
      truthy_def addToYourTopics_def Let_def travel_topic_def mixed_topic_def)


subsection \<open>Local storage\<close>

lemma loadTopics_storage:
  "localStorage (loadTopics_done parse res s) = localStorage s \<or>
   (\<exists>d. yourTopicIds (loadTopics_done parse res s) = [d] \<and>
        localStorage (loadTopics_done parse res s)
          = (localStorage s)(YOUR_TOPICS_KEY \<mapsto> JSON_stringify [d]))"
proof (cases res)
  case (Inl e)
  then show ?thesis by (simp add: loadTopics_done_def)
next
  case (Inr t)
  show ?thesis
  proof (cases "length_is_zero (load_savedIds parse (localStorage s YOUR_TOPICS_KEY))")
    case (Inl e)
    with Inr show ?thesis by (simp add: loadTopics_done_def Let_def)
  next
    case zero: (Inr z)
    show ?thesis
    proof (cases "z \<and> truthy (defaultId t)")
      case True
      then obtain d where d: "defaultId t = Some d"
        by (auto simp: truthy_def split: option.splits)
      then have "d \<in> set (map topic_id t)"
        using defaultId_known [of t d] by simp
      with Inr zero True d show ?thesis
        by (simp add: loadTopics_done_def Let_def)
    next
      case False
      with Inr zero show ?thesis
        by (auto simp: loadTopics_done_def Let_def split: sum.splits)
    qed
  qed
qed

lemma storage_step:
  "localStorage (mf_step parse s ev) = localStorage s \<or>
   localStorage (mf_step parse s ev)
     = (localStorage s)(YOUR_TOPICS_KEY \<mapsto> JSON_stringify (yourTopicIds (mf_step parse s ev))) \<or>
   (yourTopicIds (mf_step parse s ev) = [] \<and>
    localStorage (mf_step parse s ev) = (localStorage s)(YOUR_TOPICS_KEY := None))"
proof (cases ev)
  case (TopicsSettled res)
  then show ?thesis
    using loadTopics_storage [of parse res s] by auto
next
  case (ClickResult item)
  then show ?thesis
    by (auto simp: selectSearchResult_def searchQuery_rerender_def search_effect_def
        search_cleanup_def addToYourTopics_def Let_def)
next
  case ResetTopics
  then show ?thesis
    by (simp add: resetYourTopics_def Let_def)
qed (auto simp: step_defs split: sum.splits option.splits)

lemma load_writes_only_when:
  assumes "localStorage (loadTopics_done parse res s) \<noteq> localStorage s"
  shows "length_is_zero (load_savedIds parse (localStorage s YOUR_TOPICS_KEY)) = Inr True \<and>
         (\<exists>ts. res = Inr ts \<and> defaultId ts \<noteq> None)"
proof (cases res)
  case (Inl e)
  with assms show ?thesis by (simp add: loadTopics_done_def)
next
  case (Inr ts)
  show ?thesis
  proof (cases "length_is_zero (load_savedIds parse (localStorage s YOUR_TOPICS_KEY))")
    case (Inl e)
    with Inr assms show ?thesis by (simp add: loadTopics_done_def Let_def)
  next
    case zero: (Inr z)
    show ?thesis
    proof (cases "z \<and> truthy (defaultId ts)")
      case True
      with Inr zero show ?thesis by (auto simp: truthy_def split: option.splits)
    next
      case False
      with Inr zero assms show ?thesis
        by (auto simp: loadTopics_done_def Let_def split: sum.splits)
    qed
  qed
qed

lemma load_keeps_found:
  assumes "load_savedIds parse (localStorage s YOUR_TOPICS_KEY) = JArr (x # xs)"
  shows "localStorage (loadTopics_done parse res s) = localStorage s"
  using assms by (cases res) (auto simp: loadTopics_done_def Let_def split: sum.splits)

text \<open>
  C4, as the code has it. Every write to the key \<open>your_topic_ids_v1\<close> stores
  \<open>JSON.stringify\<close> of the new Your Topics array. \<open>addToYourTopics\<close> of a new id does, and
  writes nothing for an id already there. \<open>resetYourTopics\<close> removes the key and, when the
  default topic has an id other than 0, stores that single id; with no topics the key
  stays removed and Your Topics is empty. The initial load either leaves local storage as
  it was or stores the single id it has put in Your Topics; it writes only when no saved
  ids were found (\<open>savedIds.length === 0\<close>) and there is a default topic; with nothing
  saved and a default topic whose id is not 0 it stores that id; and when saved ids were
  found it writes nothing, whatever it filters out. Choosing a search result writes only
  through \<open>addToYourTopics\<close>. Every event of the component leaves local storage alone,
  stores the new Your Topics under the key, or removes the key with Your Topics empty; no
  other key is touched.
\<close>

theorem local_storage_writes:
  "(t \<notin> set (yourTopicIds s) \<longrightarrow>
      localStorage (addToYourTopics t s)
        = (localStorage s)(YOUR_TOPICS_KEY \<mapsto> JSON_stringify (yourTopicIds (addToYourTopics t s)))) \<and>
   (t \<in> set (yourTopicIds s) \<longrightarrow> localStorage (addToYourTopics t s) = localStorage s) \<and>
   (defaultId (topics s) = Some d \<and> d \<noteq> 0 \<longrightarrow>
      localStorage (resetYourTopics s) = (localStorage s)(YOUR_TOPICS_KEY \<mapsto> JSON_stringify [d]) \<and>
      yourTopicIds (resetYourTopics s) = [d]) \<and>
   (topics s = [] \<longrightarrow>
      localStorage (resetYourTopics s) = (localStorage s)(YOUR_TOPICS_KEY := None) \<and>
      yourTopicIds (resetYourTopics s) = []) \<and>
   (localStorage (loadTopics_done parse res s) = localStorage s \<or>
    (\<exists>d'. yourTopicIds (loadTopics_done parse res s) = [d'] \<and>
          localStorage (loadTopics_done parse res s)
            = (localStorage s)(YOUR_TOPICS_KEY \<mapsto> JSON_stringify [d']))) \<and>
   (localStorage (loadTopics_done parse res s) \<noteq> localStorage s \<longrightarrow>
      length_is_zero (load_savedIds parse (localStorage s YOUR_TOPICS_KEY)) = Inr True \<and>
      (\<exists>ts'. res = Inr ts' \<and> defaultId ts' \<noteq> None)) \<and>
   (load_savedIds parse (localStorage s YOUR_TOPICS_KEY) = JArr (x # xs) \<longrightarrow>
      localStorage (loadTopics_done parse res s) = localStorage s) \<and>
   ((localStorage s YOUR_TOPICS_KEY = None \<or>
     (\<exists>raw. localStorage s YOUR_TOPICS_KEY = Some raw \<and>
        (raw = [] \<or> parse raw = None \<or> parse raw = Some (JArr [])))) \<and>
    defaultId ts = Some d \<and> d \<noteq> 0 \<longrightarrow>
      localStorage (loadTopics_done parse (Inr ts) s)
        = (localStorage s)(YOUR_TOPICS_KEY \<mapsto> JSON_stringify [d]) \<and>
      yourTopicIds (loadTopics_done parse (Inr ts) s) = [d]) \<and>
   (localStorage (selectSearchResult item s) = localStorage s \<or>
    localStorage (selectSearchResult item s)
      = (localStorage s)(YOUR_TOPICS_KEY \<mapsto>
           JSON_stringify (yourTopicIds (selectSearchResult item s)))) \<and>
   (localStorage (mf_step parse s ev) = localStorage s \<or>
    localStorage (mf_step parse s ev)
      = (localStorage s)(YOUR_TOPICS_KEY \<mapsto>
           JSON_stringify (yourTopicIds (mf_step parse s ev))) \<or>
    (yourTopicIds (mf_step parse s ev) = [] \<and>
     localStorage (mf_step parse s ev) = (localStorage s)(YOUR_TOPICS_KEY := None)))"
proof -
  have 1: "t \<notin> set (yourTopicIds s) \<longrightarrow>
      localStorage (addToYourTopics t s)
        = (localStorage s)(YOUR_TOPICS_KEY \<mapsto> JSON_stringify (yourTopicIds (addToYourTopics t s)))"
    and 2: "t \<in> set (yourTopicIds s) \<longrightarrow> localStorage (addToYourTopics t s) = localStorage s"
    by (simp_all add: addToYourTopics_def Let_def)
  have 3: "defaultId (topics s) = Some d \<and> d \<noteq> 0 \<longrightarrow>
      localStorage (resetYourTopics s) = (localStorage s)(YOUR_TOPICS_KEY \<mapsto> JSON_stringify [d]) \<and>
      yourTopicIds (resetYourTopics s) = [d]"
    and 4: "topics s = [] \<longrightarrow>
      localStorage (resetYourTopics s) = (localStorage s)(YOUR_TOPICS_KEY := None) \<and>
      yourTopicIds (resetYourTopics s) = []"
    by (simp_all add: resetYourTopics_def Let_def truthy_def defaultId_def)
  have 5: "localStorage (loadTopics_done parse res s) \<noteq> localStorage s \<longrightarrow>
      length_is_zero (load_savedIds parse (localStorage s YOUR_TOPICS_KEY)) = Inr True \<and>
      (\<exists>ts'. res = Inr ts' \<and> defaultId ts' \<noteq> None)"
    using load_writes_only_when [of parse res s] by blast
  have 6: "load_savedIds parse (localStorage s YOUR_TOPICS_KEY) = JArr (x # xs) \<longrightarrow>
      localStorage (loadTopics_done parse res s) = localStorage s"
    using load_keeps_found [of parse s x xs res] by blast
  have 7: "(localStorage s YOUR_TOPICS_KEY = None \<or>
     (\<exists>raw. localStorage s YOUR_TOPICS_KEY = Some raw \<and>
        (raw = [] \<or> parse raw = None \<or> parse raw = Some (JArr [])))) \<and>
    defaultId ts = Some d \<and> d \<noteq> 0 \<longrightarrow>
      localStorage (loadTopics_done parse (Inr ts) s)
        = (localStorage s)(YOUR_TOPICS_KEY \<mapsto> JSON_stringify [d]) \<and>
      yourTopicIds (loadTopics_done parse (Inr ts) s) = [d]"
  proof
    assume a: "(localStorage s YOUR_TOPICS_KEY = None \<or>
     (\<exists>raw. localStorage s YOUR_TOPICS_KEY = Some raw \<and>
        (raw = [] \<or> parse raw = None \<or> parse raw = Some (JArr [])))) \<and>
      defaultId ts = Some d \<and> d \<noteq> 0"
    then have "load_savedIds parse (localStorage s YOUR_TOPICS_KEY) = JArr []"
      by (intro no_saved_ids) blast
    from loadTopics_no_saved [OF this, of ts] a
    show "localStorage (loadTopics_done parse (Inr ts) s)
        = (localStorage s)(YOUR_TOPICS_KEY \<mapsto> JSON_stringify [d]) \<and>
      yourTopicIds (loadTopics_done parse (Inr ts) s) = [d]"
      by simp
  qed
  have 8: "localStorage (selectSearchResult item s) = localStorage s \<or>
    localStorage (selectSearchResult item s)
      = (localStorage s)(YOUR_TOPICS_KEY \<mapsto>
           JSON_stringify (yourTopicIds (selectSearchResult item s)))"
    by (simp add: selectSearchResult_def addToYourTopics_def Let_def)
  from 1 2 3 4 5 6 7 8 loadTopics_storage [of parse res s] storage_step [of parse s ev]
  show ?thesis by blast
qed

lemma stale_visit_eval:
  "yourTopicIds stale_visit = [1]" "localStorage stale_visit YOUR_TOPICS_KEY = Some ''[1,99]''"
  by (simp_all add: stale_visit_def mf_run_def mount_defs loadTopics_done_def Let_def
      load_savedIds_def stale_store_def stale_parse_def defaultId_def mixed_topic_def)

lemma stringify_samples:
  "JSON_stringify [1] = ''[1]''" "JSON_stringify [1, 2] = ''[1,2]''"
  "JSON_stringify [] = ''[]''"
  by (simp_all add: JSON_stringify_def show_int_def show_nat.simps digit_char_def)

text \<open>
  Local storage and Your Topics can differ after the initial load: the saved ids are
  filtered against the topics but the filtered array is not written back, so local
  storage keeps \<open>[1,99]\<close> while Your Topics is \<open>[1]\<close>.
\<close>

theorem stale_storage_counterexample:
  "yourTopicIds stale_visit = [1] \<and>
   JSON_stringify (yourTopicIds stale_visit) = ''[1]'' \<and>
   localStorage stale_visit YOUR_TOPICS_KEY = Some ''[1,99]''"
  by (simp add: stale_visit_eval stringify_samples)

theorem local_storage_writes_witness:
  "2 \<notin> set (yourTopicIds first_visit) \<and>
   localStorage (addToYourTopics 2 first_visit) YOUR_TOPICS_KEY = Some ''[1,2]'' \<and>
   1 \<in> set (yourTopicIds first_visit) \<and>
   localStorage (addToYourTopics 1 first_visit) = localStorage first_visit \<and>
   defaultId (topics (addToYourTopics 2 first_visit)) = Some 1 \<and>
   localStorage (resetYourTopics (addToYourTopics 2 first_visit)) YOUR_TOPICS_KEY = Some ''[1]'' \<and>
   yourTopicIds (resetYourTopics (addToYourTopics 2 first_visit)) = [1] \<and>
   topics (initial Map.empty) = [] \<and>
   localStorage (resetYourTopics (initial Map.empty)) YOUR_TOPICS_KEY = None \<and>
   localStorage (mount (initial Map.empty)) YOUR_TOPICS_KEY = None \<and>
   localStorage first_visit YOUR_TOPICS_KEY = Some ''[1]'' \<and>
   load_savedIds stale_parse (localStorage (mount (initial stale_store)) YOUR_TOPICS_KEY)
     = JArr [JNum 1, JNum 99] \<and>
   localStorage stale_visit = localStorage (mount (initial stale_store))"
proof -
  have tp: "topics (addToYourTopics 2 first_visit) = [travel_topic, mixed_topic]"
    and yt: "yourTopicIds (addToYourTopics 2 first_visit) = [1, 2]"
    by (simp_all add: addToYourTopics_def first_visit_eval Let_def)
  have h1: "2 \<notin> set (yourTopicIds first_visit)" and h2: "1 \<in> set (yourTopicIds first_visit)"
    by (simp_all add: first_visit_eval)
  have h3: "defaultId (topics (addToYourTopics 2 first_visit)) = Some 1"
    by (simp add: tp defaultId_sample)
  have h4: "topics (initial Map.empty) = []"
    by (simp add: initial_def)
  have h5: "localStorage (mount (initial Map.empty)) YOUR_TOPICS_KEY = None"
    by (simp add: mount_defs)
  have h6: "load_savedIds stale_parse (localStorage (mount (initial stale_store)) YOUR_TOPICS_KEY)
      = JArr [JNum 1, JNum 99]"
    by (simp add: mount_defs load_savedIds_def stale_store_def stale_parse_def)
  have fv: "first_visit = loadTopics_done no_parse (Inr [travel_topic, mixed_topic])
      (mount (initial Map.empty))"
    by (simp add: first_visit_def mf_run_def)
  have sv: "stale_visit = loadTopics_done stale_parse (Inr [mixed_topic])
      (mount (initial stale_store))"
    by (simp add: stale_visit_def mf_run_def)
  note a = local_storage_writes [of 2 first_visit 1 no_parse "Inl NoMessage" JNull "[]"
      "[]" travel_result ResetTopics]
  note b = local_storage_writes [of 1 first_visit 1 no_parse "Inl NoMessage" JNull "[]"
      "[]" travel_result ResetTopics]
  note c = local_storage_writes [of 1 "addToYourTopics 2 first_visit" 1 no_parse
      "Inl NoMessage" JNull "[]" "[]" travel_result ResetTopics]
  note d = local_storage_writes [of 1 "initial Map.empty" 1 no_parse "Inl NoMessage" JNull
      "[]" "[]" travel_result ResetTopics]
  note e = local_storage_writes [of 1 "mount (initial Map.empty)" 1 no_parse
      "Inl NoMessage" JNull "[]" "[travel_topic, mixed_topic]" travel_result ResetTopics]
  note f = local_storage_writes [of 1 "mount (initial stale_store)" 1 stale_parse
      "Inr [mixed_topic]" "JNum 1" "[JNum 99]" "[]" travel_result ResetTopics]
  have a1: "2 \<notin> set (yourTopicIds first_visit) \<longrightarrow>
      localStorage (addToYourTopics 2 first_visit)
        = (localStorage first_visit)(YOUR_TOPICS_KEY \<mapsto>
            JSON_stringify (yourTopicIds (addToYourTopics 2 first_visit)))"
    using a by blast
  have b2: "1 \<in> set (yourTopicIds first_visit) \<longrightarrow>
      localStorage (addToYourTopics 1 first_visit) = localStorage first_visit"
    using b by blast
  have c3: "defaultId (topics (addToYourTopics 2 first_visit)) = Some 1 \<and> (1::int) \<noteq> 0 \<longrightarrow>
      localStorage (resetYourTopics (addToYourTopics 2 first_visit))
        = (localStorage (addToYourTopics 2 first_visit))(YOUR_TOPICS_KEY \<mapsto> JSON_stringify [1]) \<and>
      yourTopicIds (resetYourTopics (addToYourTopics 2 first_visit)) = [1]"
    using c by blast
  have d4: "topics (initial Map.empty) = [] \<longrightarrow>
      localStorage (resetYourTopics (initial Map.empty))
        = (localStorage (initial Map.empty))(YOUR_TOPICS_KEY := None) \<and>
      yourTopicIds (resetYourTopics (initial Map.empty)) = []"
    using d by blast
  have e7: "(localStorage (mount (initial Map.empty)) YOUR_TOPICS_KEY = None \<or>
     (\<exists>raw. localStorage (mount (initial Map.empty)) YOUR_TOPICS_KEY = Some raw \<and>
        (raw = [] \<or> no_parse raw = None \<or> no_parse raw = Some (JArr [])))) \<and>
    defaultId [travel_topic, mixed_topic] = Some 1 \<and> (1::int) \<noteq> 0 \<longrightarrow>
      localStorage (loadTopics_done no_parse (Inr [travel_topic, mixed_topic])
          (mount (initial Map.empty)))
        = (localStorage (mount (initial Map.empty)))(YOUR_TOPICS_KEY \<mapsto> JSON_stringify [1]) \<and>
      yourTopicIds (loadTopics_done no_parse (Inr [travel_topic, mixed_topic])
          (mount (initial Map.empty))) = [1]"
    using e by blast
  have f6: "load_savedIds stale_parse (localStorage (mount (initial stale_store)) YOUR_TOPICS_KEY)
      = JArr (JNum 1 # [JNum 99]) \<longrightarrow>
      localStorage (loadTopics_done stale_parse (Inr [mixed_topic]) (mount (initial stale_store)))
        = localStorage (mount (initial stale_store))"
    using f by blast
  have 1: "localStorage (addToYourTopics 2 first_visit) YOUR_TOPICS_KEY = Some ''[1,2]''"
    using a1 h1 by (simp add: yt stringify_samples)
  have 2: "localStorage (addToYourTopics 1 first_visit) = localStorage first_visit"
    using b2 h2 by simp
  have 3: "localStorage (resetYourTopics (addToYourTopics 2 first_visit)) YOUR_TOPICS_KEY
      = Some ''[1]''"
    and r3: "yourTopicIds (resetYourTopics (addToYourTopics 2 first_visit)) = [1]"
    using c3 h3 by (simp_all add: stringify_samples)
  have 4: "localStorage (resetYourTopics (initial Map.empty)) YOUR_TOPICS_KEY = None"
    using d4 h4 by simp
  have 5: "localStorage first_visit YOUR_TOPICS_KEY = Some ''[1]''"
    using e7 h5 defaultId_sample by (simp add: fv stringify_samples)
  have 6: "localStorage stale_visit = localStorage (mount (initial stale_store))"
    using f6 h6 by (simp add: sv)
  show ?thesis
    using h1 h2 h3 h4 h5 h6 1 2 3 r3 4 5 6 by simp
qed


subsection \<open>Your Topics without repeats\<close>

lemma valid_number_filter: "valid_number valid v = filter (\<lambda>n. n \<in> set valid) (number_of v)"
  by (cases v) simp_all

lemma valid_number_fun:
  "valid_number valid = (\<lambda>v. filter (\<lambda>n. n \<in> set valid) (number_of v))"
  by (rule ext) (rule valid_number_filter)

lemma filter_valid_numbers:
  "filter_valid valid v = Inr ids \<Longrightarrow> ids = filter (\<lambda>n. n \<in> set valid) (saved_numbers v)"
proof (cases v)
  case (JArr xs)
  assume "filter_valid valid v = Inr ids"
  with JArr have "ids = concat (map (valid_number valid) xs)"
    by simp
  also have "\<dots> = concat (map (filter (\<lambda>n. n \<in> set valid)) (map number_of xs))"
    using valid_number_fun [of valid] by (simp add: comp_def)
  also have "\<dots> = filter (\<lambda>n. n \<in> set valid) (concat (map number_of xs))"
    by (simp add: filter_concat)
  finally show ?thesis
    using JArr by simp
qed simp_all

lemma load_saved_distinct:
  assumes "your_topics_distinct parse s"
  shows "distinct (saved_numbers (load_savedIds parse (localStorage s YOUR_TOPICS_KEY)))"
proof (cases "localStorage s YOUR_TOPICS_KEY")
  case None
  then show ?thesis by (simp add: load_savedIds_def)
next
  case (Some raw)
  with assms have "no_repeats parse raw"
    by (simp add: your_topics_distinct_def)
  with Some show ?thesis
    by (simp add: load_savedIds_def no_repeats_def split: option.splits)
qed

lemma loadTopics_distinct:
  assumes "your_topics_distinct parse s"
  shows "distinct (yourTopicIds (loadTopics_done parse res s))"
proof (cases res)
  case (Inl e)
  with assms show ?thesis
    by (simp add: loadTopics_done_def your_topics_distinct_def)
next
  case (Inr t)
  have d0: "distinct (yourTopicIds s)"
    using assms by (simp add: your_topics_distinct_def)
  have d1: "distinct (saved_numbers (load_savedIds parse (localStorage s YOUR_TOPICS_KEY)))"
    using assms by (rule load_saved_distinct)
  have d2: "filter_valid valid v = Inr ids \<Longrightarrow> distinct (saved_numbers v) \<Longrightarrow> distinct ids"
    for valid v ids
    using filter_valid_numbers [of valid v ids] by simp
  show ?thesis
  proof (cases "length_is_zero (load_savedIds parse (localStorage s YOUR_TOPICS_KEY))")
    case (Inl e)
    with Inr d0 show ?thesis by (simp add: loadTopics_done_def Let_def)
  next
    case zero: (Inr z)
    show ?thesis
    proof (cases "z \<and> truthy (defaultId t)")
      case True
      have "distinct (saved_numbers (JArr [JNum (the (defaultId t))]))"
        by simp
      with Inr zero True d0 show ?thesis
        by (auto simp: loadTopics_done_def Let_def split: sum.splits dest: d2)
    next
      case False
      with Inr zero d0 d1 show ?thesis
        by (auto simp: loadTopics_done_def Let_def split: sum.splits dest: d2)
    qed
  qed
qed

lemma distinct_step:
  assumes "your_topics_distinct parse s"
  shows "distinct (yourTopicIds (mf_step parse s ev))"
proof (cases ev)
  case (TopicsSettled res)
  then show ?thesis
    using loadTopics_distinct [OF assms, of res] by simp
next
  case (ClickResult item)
  with assms show ?thesis
    by (auto simp: your_topics_distinct_def selectSearchResult_def searchQuery_rerender_def
        search_effect_def search_cleanup_def addToYourTopics_def Let_def)
next
  case ResetTopics
  with assms show ?thesis
    by (simp add: your_topics_distinct_def resetYourTopics_def Let_def)
qed (use assms in \<open>auto simp: your_topics_distinct_def step_defs split: sum.splits option.splits\<close>)

lemma your_topics_distinct_step:
  assumes w: "\<forall>xs. distinct xs \<longrightarrow> no_repeats parse (JSON_stringify xs)"
    and inv: "your_topics_distinct parse s"
  shows "your_topics_distinct parse (mf_step parse s ev)"
proof -
  have d: "distinct (yourTopicIds (mf_step parse s ev))"
    using inv by (rule distinct_step)
  have old: "\<forall>raw. localStorage s YOUR_TOPICS_KEY = Some raw \<longrightarrow> no_repeats parse raw"
    using inv by (simp add: your_topics_distinct_def)
  have new: "no_repeats parse (JSON_stringify (yourTopicIds (mf_step parse s ev)))"
    using w d by blast
  have "no_repeats parse raw"
    if got: "localStorage (mf_step parse s ev) YOUR_TOPICS_KEY = Some raw" for raw
  proof -
    consider
      (same) "localStorage (mf_step parse s ev) = localStorage s"
      | (written) "localStorage (mf_step parse s ev)
          = (localStorage s)(YOUR_TOPICS_KEY \<mapsto> JSON_stringify (yourTopicIds (mf_step parse s ev)))"
      | (removed) "localStorage (mf_step parse s ev) = (localStorage s)(YOUR_TOPICS_KEY := None)"
      using storage_step [of parse s ev] by blast
    then show ?thesis
    proof cases
      case same
      with got old show ?thesis by simp
    next
      case written
      with got have "raw = JSON_stringify (yourTopicIds (mf_step parse s ev))" by simp
      with new show ?thesis by simp
    next
      case removed
      with got show ?thesis by simp
    qed
  qed
  with d show ?thesis
    unfolding your_topics_distinct_def by blast
qed

lemma your_topics_distinct_foldl:
  assumes "\<forall>xs. distinct xs \<longrightarrow> no_repeats parse (JSON_stringify xs)"
  shows "your_topics_distinct parse s \<Longrightarrow> your_topics_distinct parse (foldl (mf_step parse) s es)"
  by (induction es arbitrary: s) (simp_all add: your_topics_distinct_step [OF assms])

lemma your_topics_distinct_run:
  assumes "\<forall>raw. store YOUR_TOPICS_KEY = Some raw \<longrightarrow> no_repeats parse raw"
    and "\<forall>xs. distinct xs \<longrightarrow> no_repeats parse (JSON_stringify xs)"
  shows "your_topics_distinct parse (mf_run parse store es)"
  unfolding mf_run_def
  by (rule your_topics_distinct_foldl [OF assms(2)])
    (use assms(1) in \<open>simp add: your_topics_distinct_def mount_defs\<close>)

lemma written_parse_no_repeats: "no_repeats written_parse raw"
  by (simp add: no_repeats_def written_parse_def)

lemma written_visit_eval:
  "yourTopicIds written_visit = [1, 2]"
  "localStorage written_visit = Map.empty(YOUR_TOPICS_KEY \<mapsto> ''[1,2]'')"
  by (simp_all add: written_visit_def mf_run_def mount_defs loadTopics_done_def Let_def
      load_savedIds_def written_parse_def defaultId_def travel_topic_def mixed_topic_def
      toLowerCase_def lower_char_def addToYourTopics_def stringify_samples)

lemma second_visit_eval: "yourTopicIds second_visit = [1, 2]"
  by (simp add: second_visit_def written_visit_eval mf_run_def mount_defs loadTopics_done_def
      Let_def load_savedIds_def written_parse_def defaultId_def travel_topic_def
      mixed_topic_def toLowerCase_def lower_char_def addToYourTopics_def)

text \<open>
  C8, as the code has it. \<open>addToYourTopics\<close> with an id already in Your Topics returns
  the state as it is, local storage included; otherwise it appends the id once at the end
  and stores the new array.
  Applying it twice is applying it once, and an array without repeats stays without repeats.
  Over every run of the component Your Topics lists no id twice, provided that the text found
  in storage at the start, if any, parses to a value without repeated numbers, and that
  \<open>JSON.parse\<close> reads back every array without repeats that the component writes as a value
  without repeated numbers.
\<close>

theorem addToYourTopics_idempotent:
  "(t \<in> set (yourTopicIds s) \<longrightarrow> addToYourTopics t s = s) \<and>
   (t \<notin> set (yourTopicIds s) \<longrightarrow>
      yourTopicIds (addToYourTopics t s) = yourTopicIds s @ [t] \<and>
      localStorage (addToYourTopics t s) YOUR_TOPICS_KEY
        = Some (JSON_stringify (yourTopicIds s @ [t]))) \<and>
   addToYourTopics t (addToYourTopics t s) = addToYourTopics t s \<and>
   (distinct (yourTopicIds s) \<longrightarrow> distinct (yourTopicIds (addToYourTopics t s))) \<and>
   ((\<forall>raw. store YOUR_TOPICS_KEY = Some raw \<longrightarrow> no_repeats parse raw) \<and>
    (\<forall>xs. distinct xs \<longrightarrow> no_repeats parse (JSON_stringify xs)) \<longrightarrow>
      distinct (yourTopicIds (mf_run parse store es)))"
proof -
  have one: "(t \<in> set (yourTopicIds s) \<longrightarrow> addToYourTopics t s = s) \<and>
   (t \<notin> set (yourTopicIds s) \<longrightarrow>
      yourTopicIds (addToYourTopics t s) = yourTopicIds s @ [t] \<and>
      localStorage (addToYourTopics t s) YOUR_TOPICS_KEY
        = Some (JSON_stringify (yourTopicIds s @ [t]))) \<and>
   addToYourTopics t (addToYourTopics t s) = addToYourTopics t s \<and>
   (distinct (yourTopicIds s) \<longrightarrow> distinct (yourTopicIds (addToYourTopics t s)))"
    by (simp add: addToYourTopics_def Let_def)
  have run: "distinct (yourTopicIds (mf_run parse store es))"
    if "\<forall>raw. store YOUR_TOPICS_KEY = Some raw \<longrightarrow> no_repeats parse raw"
      and "\<forall>xs. distinct xs \<longrightarrow> no_repeats parse (JSON_stringify xs)"
    using your_topics_distinct_run [of store parse es] that
    unfolding your_topics_distinct_def by blast
  from one run show ?thesis
    by blast
qed

theorem addToYourTopics_idempotent_witness:
  "(3::int) \<notin> set (yourTopicIds (initial Map.empty)) \<and>
   distinct (yourTopicIds (initial Map.empty)) \<and>
   yourTopicIds (addToYourTopics 3 (initial Map.empty)) = [3] \<and>
   localStorage (addToYourTopics 3 (initial Map.empty)) YOUR_TOPICS_KEY = Some ''[3]'' \<and>
   3 \<in> set (yourTopicIds (addToYourTopics 3 (initial Map.empty))) \<and>
   addToYourTopics 3 (addToYourTopics 3 (initial Map.empty))
     = addToYourTopics 3 (initial Map.empty) \<and>
   distinct (yourTopicIds (addToYourTopics 3 (initial Map.empty))) \<and>
   localStorage written_visit YOUR_TOPICS_KEY = Some ''[1,2]'' \<and>
   yourTopicIds second_visit = [1, 2] \<and> distinct (yourTopicIds second_visit)"
proof -
  have h1: "\<forall>raw. localStorage written_visit YOUR_TOPICS_KEY = Some raw \<longrightarrow>
      no_repeats written_parse raw"
    by (simp add: written_parse_no_repeats)
  have h2: "\<forall>xs. distinct xs \<longrightarrow> no_repeats written_parse (JSON_stringify xs)"
    by (simp add: written_parse_no_repeats)
  note a = addToYourTopics_idempotent [of 3 "initial Map.empty" "localStorage written_visit"
      written_parse "[TopicsSettled (Inr [travel_topic, mixed_topic]), AddTopic 2]"]
  note b = addToYourTopics_idempotent [of 3 "addToYourTopics 3 (initial Map.empty)" Map.empty
      written_parse "[]"]
  have r: "distinct (yourTopicIds second_visit)"
    using a h1 h2 unfolding second_visit_def by blast
  have a2: "3 \<notin> set (yourTopicIds (initial Map.empty)) \<longrightarrow>
      yourTopicIds (addToYourTopics 3 (initial Map.empty)) = yourTopicIds (initial Map.empty) @ [3] \<and>
      localStorage (addToYourTopics 3 (initial Map.empty)) YOUR_TOPICS_KEY
        = Some (JSON_stringify (yourTopicIds (initial Map.empty) @ [3]))"
    and a4: "distinct (yourTopicIds (initial Map.empty)) \<longrightarrow>
      distinct (yourTopicIds (addToYourTopics 3 (initial Map.empty)))"
    using a by blast+
  have b1: "3 \<in> set (yourTopicIds (addToYourTopics 3 (initial Map.empty))) \<longrightarrow>
      addToYourTopics 3 (addToYourTopics 3 (initial Map.empty))
        = addToYourTopics 3 (initial Map.empty)"
    using b by blast
  have e: "yourTopicIds (initial Map.empty) = []"
    by (simp add: initial_def)
  have 1: "yourTopicIds (addToYourTopics 3 (initial Map.empty)) = [3]"
    and 2: "localStorage (addToYourTopics 3 (initial Map.empty)) YOUR_TOPICS_KEY = Some ''[3]''"
    using a2 e
    by (simp_all add: JSON_stringify_def show_int_def show_nat.simps digit_char_def)
  have 3: "addToYourTopics 3 (addToYourTopics 3 (initial Map.empty))
        = addToYourTopics 3 (initial Map.empty)"
    using b1 1 by simp
  show ?thesis
    using e 1 2 3 r by (simp add: second_visit_eval written_visit_eval)
qed

text \<open>
  Your Topics can hold an id twice. The load keeps what \<open>savedIds.filter\<close> lets through,
  repeats included: from the stored text \<open>[1,1,2]\<close> Your Topics becomes \<open>[1, 1, 2]\<close>, and adding
  another id keeps the repeat.
\<close>

theorem repeated_storage_counterexample:
  "yourTopicIds repeat_visit = [1, 1, 2] \<and> \<not> distinct (yourTopicIds repeat_visit) \<and>
   yourTopicIds (addToYourTopics 8 repeat_visit) = [1, 1, 2, 8]"
  by (simp add: repeat_visit_def mf_run_def mount_defs loadTopics_done_def Let_def
      load_savedIds_def repeat_store_def repeat_parse_def defaultId_def travel_topic_def
      mixed_topic_def addToYourTopics_def)


subsection \<open>Requests and endpoints\<close>

lemma digit_char_digit: "d < 10 \<Longrightarrow> digit_char d \<in> set ''0123456789''"
  unfolding digit_char_def by (rule nth_mem) simp

lemma show_nat_digits: "show_nat n \<noteq> [] \<and> list_all (\<lambda>c. c \<in> set ''0123456789'') (show_nat n)"
proof (induction n rule: show_nat.induct)
  case (1 n)
  have eq: "show_nat n =
      (if n < 10 then [digit_char n] else show_nat (n div 10) @ [digit_char (n mod 10)])"
    by (rule show_nat.simps)
  show ?case
  proof (cases "n < 10")
    case True
    then have "show_nat n = [digit_char n]"
      using eq by simp
    then show ?thesis
      using digit_char_digit [OF True] by simp
  next
    case False
    then have "show_nat n = show_nat (n div 10) @ [digit_char (n mod 10)]"
      using eq by simp
    moreover have "digit_char (n mod 10) \<in> set ''0123456789''"
      by (rule digit_char_digit) simp
    ultimately show ?thesis
      using 1 [OF False] by simp
  qed
qed

lemma is_digits_show_nat: "is_digits (show_nat n)"
  using show_nat_digits by (simp add: is_digits_def)

lemma is_integer_show_int: "is_integer (show_int i)"
proof (cases "i < 0")
  case True
  then show ?thesis
    by (simp add: is_integer_def show_int_def is_digits_show_nat)
next
  case False
  obtain c cs where cs: "show_nat (nat i) = c # cs"
    using show_nat_digits [of "nat i"] by (cases "show_nat (nat i)") auto
  have "c \<in> set ''0123456789''"
    using show_nat_digits [of "nat i"] cs by simp
  moreover have "CHR ''-'' \<notin> set ''0123456789''"
    by simp
  ultimately have "c \<noteq> CHR ''-''"
    by blast
  with False cs show ?thesis
    using is_digits_show_nat [of "nat i"] by (simp add: is_integer_def show_int_def)
qed

lemma show_nat_no_separators:
  "CHR ''&'' \<notin> set (show_nat n) \<and> CHR ''='' \<notin> set (show_nat n)"
proof -
  have "\<forall>c \<in> set (show_nat n). c \<in> set ''0123456789''"
    using show_nat_digits [of n] by (simp add: list_all_iff)
  moreover have "CHR ''&'' \<notin> set ''0123456789''" "CHR ''='' \<notin> set ''0123456789''"
    by simp_all
  ultimately show ?thesis
    by blast
qed

lemma show_int_no_separators:
  "CHR ''&'' \<notin> set (show_int i) \<and> CHR ''='' \<notin> set (show_int i)"
  using show_nat_no_separators [of "nat i"] show_nat_no_separators [of "nat (- i)"]
  by (simp add: show_int_def)

lemma strip_prefix_append: "strip_prefix p (p @ x) = Some x"
  by (induction p) auto

lemma split_on_none: "c \<notin> set x \<Longrightarrow> split_on c x = [x]"
  by (induction x) auto

lemma split_on_first: "c \<notin> set x \<Longrightarrow> split_on c (x @ c # y) = x # split_on c y"
  by (induction x) auto

lemma key_value:
  "CHR ''='' \<notin> set k \<Longrightarrow>
   takeWhile (\<lambda>c. c \<noteq> CHR ''='') (k @ CHR ''='' # v) = k \<and>
   drop 1 (dropWhile (\<lambda>c. c \<noteq> CHR ''='') (k @ CHR ''='' # v)) = v"
  by (induction k) auto

lemma query_params_two:
  assumes "CHR ''&'' \<notin> set k1" "CHR ''='' \<notin> set k1" "CHR ''&'' \<notin> set v1"
    "CHR ''&'' \<notin> set k2" "CHR ''='' \<notin> set k2" "CHR ''&'' \<notin> set v2"
  shows "query_params (k1 @ CHR ''='' # v1 @ CHR ''&'' # k2 @ CHR ''='' # v2) = [(k1, v1), (k2, v2)]"
proof -
  have "split_on CHR ''&'' ((k1 @ CHR ''='' # v1) @ CHR ''&'' # (k2 @ CHR ''='' # v2))
      = [k1 @ CHR ''='' # v1, k2 @ CHR ''='' # v2]"
    using assms by (simp add: split_on_first split_on_none del: append_assoc)
  then show ?thesis
    using assms key_value [of k1 v1] key_value [of k2 v2] by (simp add: query_params_def)
qed

lemma hex_digit_unreserved: "d < 16 \<Longrightarrow> unreserved (hex_digit d)"
proof -
  assume "d < 16"
  then have "''0123456789ABCDEF'' ! d \<in> set ''0123456789ABCDEF''"
    by (intro nth_mem) simp
  moreover have "\<forall>c \<in> set ''0123456789ABCDEF''. unreserved c"
    by (simp add: unreserved_def)
  ultimately show ?thesis
    unfolding hex_digit_def by blast
qed

lemma encode_char_chars: "c' \<in> set (encode_char c) \<Longrightarrow> unreserved c' \<or> c' = CHR ''%''"
proof -
  assume a: "c' \<in> set (encode_char c)"
  have "(of_char c :: nat) < 256"
    by (rule nat_of_char_less_256)
  then have "(of_char c :: nat) < 16 * 16"
    by simp
  then have "(of_char c :: nat) div 16 < 16"
    by (rule less_mult_imp_div_less)
  moreover have "(of_char c :: nat) mod 16 < 16"
    by simp
  ultimately
  have "unreserved (hex_digit (of_char c div 16))" "unreserved (hex_digit (of_char c mod 16))"
    by (simp_all add: hex_digit_unreserved)
  with a show ?thesis
    by (auto simp: encode_char_def split: if_splits)
qed

lemma encoded_chars: "is_url_encoded (encodeURIComponent q)"
  using encode_char_chars by (auto simp: is_url_encoded_def encodeURIComponent_def list_all_iff)

lemma not_unreserved: "\<not> unreserved CHR ''&''" "\<not> unreserved CHR ''=''"
  by (simp_all add: unreserved_def)

lemma encoded_no_separators:
  "CHR ''&'' \<notin> set (encodeURIComponent q) \<and> CHR ''='' \<notin> set (encodeURIComponent q)"
  using encoded_chars [of q] not_unreserved by (auto simp: is_url_encoded_def list_all_iff)

lemma show_int_first: "\<exists>c cs. show_int i = c # cs \<and> c \<noteq> CHR ''s''"
proof -
  have d: "\<forall>c \<in> set ''-0123456789''. c \<noteq> CHR ''s''"
    by simp
  show ?thesis
  proof (cases "i < 0")
    case True
    then show ?thesis by (simp add: show_int_def)
  next
    case False
    obtain c cs where cs: "show_nat (nat i) = c # cs"
      using show_nat_digits [of "nat i"] by (cases "show_nat (nat i)") auto
    then have "c \<in> set ''0123456789''"
      using show_nat_digits [of "nat i"] by simp
    moreover have "CHR ''s'' \<notin> set ''0123456789''"
      by simp
    ultimately have "c \<noteq> CHR ''s''"
      by blast
    with False cs show ?thesis
      by (simp add: show_int_def)
  qed
qed

lemma ep_topics: "spec_endpoint (apiGet_request ''/topics'') = Some GET_topics"
  by (simp add: spec_endpoint_def apiGet_request_def)

lemma ep_auth:
  "spec_endpoint (apiGet_request ''/auth/me'') = Some GET_auth_me"
  "spec_endpoint (apiPost_request ''/auth/google'' b) = Some POST_auth_google"
  "spec_endpoint (apiPost_request ''/auth/logout'' b) = Some POST_auth_logout"
  by (simp_all add: spec_endpoint_def apiGet_request_def apiPost_request_def)

lemma entries_query:
  "query_params (''topic_id='' @ show_int t @ ''&limit=2000'')
     = [(''topic_id'', show_int t), (''limit'', ''2000'')]"
  using query_params_two [of "''topic_id''" "show_int t" "''limit''" "''2000''"]
    show_int_no_separators [of t]
  by simp

lemma ep_entries: "spec_endpoint (apiGet_request (entries_path t)) = Some GET_entries"
  by (simp add: spec_endpoint_def apiGet_request_def entries_path_def entries_query [simplified]
      is_digits_def)

lemma search_query:
  "query_params (''q='' @ encodeURIComponent q @ ''&limit=20'')
     = [(''q'', encodeURIComponent q), (''limit'', ''20'')]"
  using query_params_two [of "''q''" "encodeURIComponent q" "''limit''" "''20''"]
    encoded_no_separators [of q]
  by simp

lemma ep_search: "spec_endpoint (apiGet_request (search_path q)) = Some GET_entries_search"
  by (simp add: spec_endpoint_def apiGet_request_def search_path_def search_query [simplified]
      is_digits_def encoded_chars)

lemma ep_entry: "spec_endpoint (apiGet_request (entry_path i)) = Some GET_entry"
proof -
  obtain c cs where c: "show_int i = c # cs" "c \<noteq> CHR ''s''"
    using show_int_first [of i] by blast
  have "is_integer (c # cs)"
    using is_integer_show_int [of i] c by simp
  with c show ?thesis
    by (simp add: spec_endpoint_def apiGet_request_def entry_path_def)
qed

lemma step_requests:
  "\<exists>new. requests (mf_step parse s ev) = requests s @ new \<and>
     (new = [] \<or> (\<exists>t. new = [apiGet_request (entries_path t)]) \<or>
      (\<exists>i. new = [apiGet_request (entry_path i)]) \<or>
      (ev = SearchTimeout \<and>
       (\<exists>due q. searchTimer s = Some (due, q) \<and> due \<le> now s \<and>
          new = [apiGet_request (search_path q)])))"
proof (cases ev)
  case (TopicsSettled res)
  then show ?thesis
    by (auto simp: loadTopics_done_def Let_def split: sum.splits)
next
  case (ClickResult item)
  then show ?thesis
    by (auto simp: selectSearchResult_def searchQuery_rerender_def search_effect_def
        search_cleanup_def addToYourTopics_def Let_def)
next
  case SearchTimeout
  then show ?thesis
    by (auto simp: search_timeout_def split: option.splits)
qed (auto simp: step_defs split: sum.splits option.splits)

lemma mf_listed_step:
  assumes "\<forall>r \<in> set (requests s). spec_endpoint r \<noteq> None"
  shows "\<forall>r \<in> set (requests (mf_step parse s ev)). spec_endpoint r \<noteq> None"
  using step_requests [of parse s ev] assms ep_entries ep_entry ep_search
  by auto

lemma mf_listed_foldl:
  "\<forall>r \<in> set (requests s). spec_endpoint r \<noteq> None \<Longrightarrow>
   \<forall>r \<in> set (requests (foldl (mf_step parse) s es)). spec_endpoint r \<noteq> None"
proof (induction es arbitrary: s)
  case Nil
  then show ?case by simp
next
  case (Cons e es)
  have "\<forall>r \<in> set (requests (mf_step parse s e)). spec_endpoint r \<noteq> None"
    using Cons.prems by (rule mf_listed_step)
  then show ?case
    using Cons.IH by simp
qed

lemma mount_requests: "requests (mount (initial store)) = [apiGet_request ''/topics'']"
  by (simp add: mount_defs)

lemma mf_listed_run: "\<forall>r \<in> set (requests (mf_run parse store es)). spec_endpoint r \<noteq> None"
  unfolding mf_run_def
  by (rule mf_listed_foldl) (simp add: mount_requests ep_topics)

lemma app_listed_step:
  assumes "\<forall>r \<in> set (app_requests a). spec_endpoint r \<noteq> None"
  shows "\<forall>r \<in> set (app_requests (app_step a ev)). spec_endpoint r \<noteq> None"
  using assms
  by (cases ev)
    (auto simp: session_done_def handleGoogleCredential_def handleGoogleCredential_done_def
      handleLogout_def handleLogout_done_def ep_auth split: sum.splits)

lemma app_listed_foldl:
  "\<forall>r \<in> set (app_requests a). spec_endpoint r \<noteq> None \<Longrightarrow>
   \<forall>r \<in> set (app_requests (foldl app_step a es)). spec_endpoint r \<noteq> None"
proof (induction es arbitrary: a)
  case Nil
  then show ?case by simp
next
  case (Cons e es)
  have "\<forall>r \<in> set (app_requests (app_step a e)). spec_endpoint r \<noteq> None"
    using Cons.prems by (rule app_listed_step)
  then show ?case
    using Cons.IH by simp
qed

lemma app_listed_run: "\<forall>r \<in> set (app_requests (app_run es)). spec_endpoint r \<noteq> None"
  unfolding app_run_def
  by (rule app_listed_foldl) (simp add: session_effect_def app_initial_def ep_auth)

lemma consumed_mf:
  "r \<in> set (requests (mf_run parse store es)) \<Longrightarrow>
   spec_endpoint r \<in> consumed_endpoints parse store"
  unfolding consumed_endpoints_def by blast

lemma consumed_app:
  "r \<in> set (app_requests (app_run es)) \<Longrightarrow> spec_endpoint r \<in> consumed_endpoints parse store"
  unfolding consumed_endpoints_def by blast

lemma run_topics:
  "apiGet_request ''/topics'' \<in> set (requests (mf_run parse store []))"
  by (simp add: mf_run_def mount_requests)

lemma run_entries:
  "apiGet_request (entries_path 1)
     \<in> set (requests (mf_run parse store [SelectTopic 1, EntriesEffect]))"
  by (simp add: mf_run_def mount_requests onSelectTopic_def loadEntries_effect_def truthy_def)

lemma run_entry:
  "apiGet_request (entry_path 1)
     \<in> set (requests (mf_run parse store [EntriesSettled (Inr [card1]), DetailEffect]))"
  by (simp add: mf_run_def mount_requests loadEntries_done_def detail_effect_def js_index_def
      card1_def)

lemma run_search:
  "apiGet_request (search_path ''a'')
     \<in> set (requests (mf_run parse store [ChangeSearch ''a'', Elapse 250, SearchTimeout]))"
proof -
  have q: "searchQuery (mount (initial store)) = []" and n: "now (mount (initial store)) = 0"
    by (simp_all add: mount_defs)
  have "searchTimer (onChange_search ''a'' (mount (initial store))) = Some (250, ''a'')"
    by (simp add: onChange_search_def searchQuery_rerender_def search_effect_def
        search_cleanup_def q n trim_samples Let_def)
  moreover have "now (onChange_search ''a'' (mount (initial store))) = 0"
    by (simp add: onChange_search_def searchQuery_rerender_def search_effect_def
        search_cleanup_def q n trim_samples Let_def)
  ultimately show ?thesis
    by (simp add: mf_run_def search_timeout_def)
qed

lemma run_auth:
  "apiGet_request ''/auth/me'' \<in> set (app_requests (app_run []))"
  "apiPost_request ''/auth/google'' (Some (JObj [(''credential'', JStr ''token'')]))
     \<in> set (app_requests (app_run [GoogleCredential ''token'']))"
  "apiPost_request ''/auth/logout'' None \<in> set (app_requests (app_run [Logout]))"
  by (simp_all add: app_run_def session_effect_def app_initial_def handleGoogleCredential_def
      handleLogout_def)

text \<open>
  C6. The endpoints of the requests issued in all runs of \<open>MainFlashcard\<close> and of the
  sign-in component are exactly the seven of the specification: every request is one of
  them, and each of them is requested in some run. The search path carries the query
  as \<open>encodeURIComponent\<close> leaves it, which has no character that would end the parameter,
  and the list and search paths carry a numeric \<open>limit\<close>.
\<close>

theorem endpoints_exact:
  "consumed_endpoints parse store =
     {Some GET_topics, Some GET_entries, Some GET_entry, Some GET_entries_search,
      Some POST_auth_google, Some GET_auth_me, Some POST_auth_logout} \<and>
   path (apiGet_request (search_path q))
     = ''/entries/search?q='' @ encodeURIComponent q @ ''&limit=20'' \<and>
   is_url_encoded (encodeURIComponent q) \<and>
   query_params (''q='' @ encodeURIComponent q @ ''&limit=20'')
     = [(''q'', encodeURIComponent q), (''limit'', ''20'')] \<and>
   query_params (''topic_id='' @ show_int t @ ''&limit=2000'')
     = [(''topic_id'', show_int t), (''limit'', ''2000'')]"
proof -
  have sub: "x \<in> consumed_endpoints parse store \<Longrightarrow> x \<noteq> None" for x
    using mf_listed_run [of parse store] app_listed_run
    unfolding consumed_endpoints_def by auto
  have all: "x \<noteq> None \<Longrightarrow> x \<in> {Some GET_topics, Some GET_entries, Some GET_entry,
      Some GET_entries_search, Some POST_auth_google, Some GET_auth_me, Some POST_auth_logout}"
    for x :: "endpoint option"
  proof -
    assume "x \<noteq> None"
    then obtain e where "x = Some e" by auto
    then show ?thesis by (cases e) simp_all
  qed
  have 1: "Some GET_topics \<in> consumed_endpoints parse store"
    using consumed_mf [OF run_topics, of parse store] by (simp add: ep_topics)
  have 2: "Some GET_entries \<in> consumed_endpoints parse store"
    using consumed_mf [OF run_entries, of parse store] by (simp add: ep_entries)
  have 3: "Some GET_entry \<in> consumed_endpoints parse store"
    using consumed_mf [OF run_entry, of parse store] by (simp add: ep_entry)
  have 4: "Some GET_entries_search \<in> consumed_endpoints parse store"
    using consumed_mf [OF run_search, of parse store] by (simp add: ep_search)
  have 5: "Some GET_auth_me \<in> consumed_endpoints parse store"
    using consumed_app [OF run_auth(1), of parse store] by (simp add: ep_auth)
  have 6: "Some POST_auth_google \<in> consumed_endpoints parse store"
    using consumed_app [OF run_auth(2), of parse store] by (simp add: ep_auth)
  have 7: "Some POST_auth_logout \<in> consumed_endpoints parse store"
    using consumed_app [OF run_auth(3), of parse store] by (simp add: ep_auth)
  have "consumed_endpoints parse store =
     {Some GET_topics, Some GET_entries, Some GET_entry, Some GET_entries_search,
      Some POST_auth_google, Some GET_auth_me, Some POST_auth_logout}"
    using sub all 1 2 3 4 5 6 7 by blast
  then show ?thesis
    using search_query [of q] entries_query [of t] encoded_chars [of q]
    by (simp add: apiGet_request_def search_path_def)
qed

lemma encoded_sample: "encodeURIComponent ''a b'' = ''a%20b''"
  by (simp add: encodeURIComponent_def encode_char_def unreserved_def hex_digit_def)

lemma show_int_5: "show_int 5 = ''5''"
  by (simp add: show_int_def show_nat.simps digit_char_def)

theorem endpoints_exact_witness:
  "consumed_endpoints no_parse Map.empty =
     {Some GET_topics, Some GET_entries, Some GET_entry, Some GET_entries_search,
      Some POST_auth_google, Some GET_auth_me, Some POST_auth_logout} \<and>
   path (apiGet_request (search_path ''a b'')) = ''/entries/search?q=a%20b&limit=20'' \<and>
   query_params ''q=a%20b&limit=20'' = [(''q'', ''a%20b''), (''limit'', ''20'')] \<and>
   query_params ''topic_id=5&limit=2000'' = [(''topic_id'', ''5''), (''limit'', ''2000'')]"
  using endpoints_exact [of no_parse Map.empty "''a b''" 5]
  by (simp add: encoded_sample show_int_5)


subsection \<open>Late answers to entry requests\<close>

lemma step_requests_ref:
  "\<exists>new. requests (mf_step parse s ev) = requests s @ new \<and>
     (new = [] \<or> (\<exists>t. new = [apiGet_request (entries_path t)]) \<or>
      ((\<exists>i. new = [apiGet_request (entry_path i)]) \<and>
       entryDetailReqRef (mf_step parse s ev) = entryDetailReqRef s + 1) \<or>
      (\<exists>q. new = [apiGet_request (search_path q)]))"
proof (cases ev)
  case (TopicsSettled res)
  then show ?thesis
    by (auto simp: loadTopics_done_def Let_def split: sum.splits)
next
  case (ClickResult item)
  then show ?thesis
    by (auto simp: selectSearchResult_def searchQuery_rerender_def search_effect_def
        search_cleanup_def addToYourTopics_def Let_def)
next
  case SearchTimeout
  then show ?thesis
    by (auto simp: search_timeout_def split: option.splits)
qed (auto simp: step_defs split: sum.splits option.splits)

lemma entry_request_bumps:
  assumes new: "requests (mf_step parse s ev) = requests s @ new"
    and q: "q \<in> set new" "spec_endpoint q = Some GET_entry"
  shows "entryDetailReqRef (mf_step parse s ev) = entryDetailReqRef s + 1"
proof -
  from step_requests_ref [of parse s ev] new
  have "new = [] \<or> (\<exists>t. new = [apiGet_request (entries_path t)]) \<or>
      ((\<exists>i. new = [apiGet_request (entry_path i)]) \<and>
       entryDetailReqRef (mf_step parse s ev) = entryDetailReqRef s + 1) \<or>
      (\<exists>q. new = [apiGet_request (search_path q)])"
    by auto
  with q show ?thesis
    by (auto simp: ep_entries ep_search)
qed

text \<open>
  An answer to an entry request with id \<open>r\<close> that arrives when the counter no longer equals
  \<open>r\<close> changes nothing, in each of the three places that fetch an entry, whether the
  request succeeded or failed: the whole state, and so \<open>entryDetail\<close>, \<open>errMsg\<close> and
  \<open>loading\<close>, is as before. Once the counter has passed \<open>r\<close> it stays past it whatever
  happens next. Every step that issues a request to \<open>/entries/{id}\<close> adds one to the
  counter, so an answer to any request started before that step is dropped after it, and
  after whatever follows it.
\<close>

theorem stale_detail_response_discarded:
  "(r \<noteq> entryDetailReqRef s \<longrightarrow>
      detail_done r res s = s \<and> pendingJump_done r res s = s \<and>
      selectSearchResult_done r res s = s) \<and>
   (r < entryDetailReqRef s \<longrightarrow> r < entryDetailReqRef (foldl (mf_step parse) s es)) \<and>
   (requests (mf_step parse s ev) = requests s @ new \<and> q \<in> set new \<and>
    spec_endpoint q = Some GET_entry \<longrightarrow>
      entryDetailReqRef (mf_step parse s ev) = entryDetailReqRef s + 1 \<and>
      (r \<le> entryDetailReqRef s \<longrightarrow>
         detail_done r res (foldl (mf_step parse) (mf_step parse s ev) es)
           = foldl (mf_step parse) (mf_step parse s ev) es \<and>
         pendingJump_done r res (foldl (mf_step parse) (mf_step parse s ev) es)
           = foldl (mf_step parse) (mf_step parse s ev) es \<and>
         selectSearchResult_done r res (foldl (mf_step parse) (mf_step parse s ev) es)
           = foldl (mf_step parse) (mf_step parse s ev) es))"
proof -
  have guard: "detail_done r res x = x \<and> pendingJump_done r res x = x \<and>
      selectSearchResult_done r res x = x" if "r \<noteq> entryDetailReqRef x" for x
    using that by (simp add: detail_done_def pendingJump_done_def selectSearchResult_done_def)
  have mono: "r < entryDetailReqRef (foldl (mf_step parse) x es)" if "r < entryDetailReqRef x" for x
    using that reqref_foldl [of x parse es] by simp
  have bump: "entryDetailReqRef (mf_step parse s ev) = entryDetailReqRef s + 1"
    if "requests (mf_step parse s ev) = requests s @ new" "q \<in> set new"
      "spec_endpoint q = Some GET_entry"
    using that by (rule entry_request_bumps)
  have late: "r \<noteq> entryDetailReqRef (foldl (mf_step parse) (mf_step parse s ev) es)"
    if "requests (mf_step parse s ev) = requests s @ new" "q \<in> set new"
      "spec_endpoint q = Some GET_entry" "r \<le> entryDetailReqRef s"
  proof -
    have "r < entryDetailReqRef (mf_step parse s ev)"
      using bump [OF that(1-3)] that(4) by simp
    then have "r < entryDetailReqRef (foldl (mf_step parse) (mf_step parse s ev) es)"
      by (rule mono)
    then show ?thesis by simp
  qed
  show ?thesis
    using guard [of s] guard [of "foldl (mf_step parse) (mf_step parse s ev) es"] mono [of s]
      bump late
    by blast
qed

lemma detail_pending_eval:
  "entries detail_pending = [card1]" "currentIndex detail_pending = 0"
  "entryDetailReqRef detail_pending = 1" "entryDetail detail_pending = None"
  "selectedTopicId detail_pending = Some 1"
  "requests detail_pending
     = [apiGet_request ''/topics'', apiGet_request ''/entries?topic_id=1&limit=2000'',
        apiGet_request ''/entries/1'']"
  by (simp_all add: detail_pending_def mf_run_def mount_defs loadTopics_done_def Let_def
      load_savedIds_def no_parse_def defaultId_def travel_topic_def mixed_topic_def
      toLowerCase_def lower_char_def loadEntries_done_def card1_def entries_path_def
      entry_path_def show_int_def show_nat.simps digit_char_def)

theorem stale_detail_response_discarded_witness:
  "1 \<noteq> entryDetailReqRef two_requests \<and>
   detail_done 1 (Inr detail1) two_requests = two_requests \<and>
   pendingJump_done 1 (Inr detail1) two_requests = two_requests \<and>
   selectSearchResult_done 1 (Inl (JsError ''API error 500'')) two_requests = two_requests \<and>
   1 < entryDetailReqRef two_requests \<and>
   1 < entryDetailReqRef (foldl (mf_step no_parse) two_requests [Prev, DetailEffect]) \<and>
   requests (mf_step no_parse detail_pending DetailEffect)
     = requests detail_pending @ [apiGet_request ''/entries/1''] \<and>
   spec_endpoint (apiGet_request ''/entries/1'') = Some GET_entry \<and>
   entryDetailReqRef (mf_step no_parse detail_pending DetailEffect) = 2 \<and>
   detail_done 1 (Inr detail1) (foldl (mf_step no_parse) (mf_step no_parse detail_pending DetailEffect) [Flip])
     = foldl (mf_step no_parse) (mf_step no_parse detail_pending DetailEffect) [Flip]"
proof -
  note a = stale_detail_response_discarded
      [of 1 two_requests "Inr detail1" no_parse "[Prev, DetailEffect]" Prev "[]"
        "apiGet_request ''/entries/1''"]
  note b = stale_detail_response_discarded
      [of 1 two_requests "Inl (JsError ''API error 500'')" no_parse "[]" Prev "[]"
        "apiGet_request ''/entries/1''"]
  note c = stale_detail_response_discarded
      [of 1 detail_pending "Inr detail1" no_parse "[Flip]" DetailEffect
        "[apiGet_request ''/entries/1'']" "apiGet_request ''/entries/1''"]
  have a1: "1 \<noteq> entryDetailReqRef two_requests \<longrightarrow>
      detail_done 1 (Inr detail1) two_requests = two_requests \<and>
      pendingJump_done 1 (Inr detail1) two_requests = two_requests"
    and a2: "1 < entryDetailReqRef two_requests \<longrightarrow>
      1 < entryDetailReqRef (foldl (mf_step no_parse) two_requests [Prev, DetailEffect])"
    using a by blast+
  have b1: "1 \<noteq> entryDetailReqRef two_requests \<longrightarrow>
      selectSearchResult_done 1 (Inl (JsError ''API error 500'')) two_requests = two_requests"
    using b by blast
  have issued: "requests (mf_step no_parse detail_pending DetailEffect)
     = requests detail_pending @ [apiGet_request ''/entries/1'']"
    by (simp add: detail_effect_def js_index_def detail_pending_eval card1_def entry_path_def
        show_int_def show_nat.simps digit_char_def)
  have ep: "spec_endpoint (apiGet_request ''/entries/1'') = Some GET_entry"
    using ep_entry [of 1]
    by (simp add: entry_path_def show_int_def show_nat.simps digit_char_def)
  have c3: "requests (mf_step no_parse detail_pending DetailEffect)
        = requests detail_pending @ [apiGet_request ''/entries/1''] \<and>
      apiGet_request ''/entries/1'' \<in> set [apiGet_request ''/entries/1''] \<and>
      spec_endpoint (apiGet_request ''/entries/1'') = Some GET_entry \<longrightarrow>
      entryDetailReqRef (mf_step no_parse detail_pending DetailEffect)
        = entryDetailReqRef detail_pending + 1 \<and>
      (1 \<le> entryDetailReqRef detail_pending \<longrightarrow>
         detail_done 1 (Inr detail1)
           (foldl (mf_step no_parse) (mf_step no_parse detail_pending DetailEffect) [Flip])
           = foldl (mf_step no_parse) (mf_step no_parse detail_pending DetailEffect) [Flip])"
    using c by blast
  have in_new: "apiGet_request ''/entries/1'' \<in> set [apiGet_request ''/entries/1'']"
    by simp
  have c4: "entryDetailReqRef (mf_step no_parse detail_pending DetailEffect)
        = entryDetailReqRef detail_pending + 1"
    and c5: "1 \<le> entryDetailReqRef detail_pending \<longrightarrow>
         detail_done 1 (Inr detail1)
           (foldl (mf_step no_parse) (mf_step no_parse detail_pending DetailEffect) [Flip])
           = foldl (mf_step no_parse) (mf_step no_parse detail_pending DetailEffect) [Flip]"
    using c3 issued ep in_new by blast+
  have r: "entryDetailReqRef two_requests = 2" by (rule two_requests_ref)
  have p: "entryDetailReqRef detail_pending = 1" by (rule detail_pending_eval)
  have 1: "detail_done 1 (Inr detail1) two_requests = two_requests \<and>
      pendingJump_done 1 (Inr detail1) two_requests = two_requests"
    using a1 r by simp
  have 2: "1 < entryDetailReqRef (foldl (mf_step no_parse) two_requests [Prev, DetailEffect])"
    using a2 r by simp
  have 3: "selectSearchResult_done 1 (Inl (JsError ''API error 500'')) two_requests = two_requests"
    using b1 r by simp
  have 4: "entryDetailReqRef (mf_step no_parse detail_pending DetailEffect) = 2"
    using c4 p by simp
  have 5: "detail_done 1 (Inr detail1)
           (foldl (mf_step no_parse) (mf_step no_parse detail_pending DetailEffect) [Flip])
           = foldl (mf_step no_parse) (mf_step no_parse detail_pending DetailEffect) [Flip]"
    using c5 p by simp
  show ?thesis
    using r 1 2 3 4 5 issued ep by simp
qed

text \<open>
  C1. An answer that is adopted although the card it belongs to is gone. The detail of card 1
  is requested with id 1. Before the answer arrives the user selects topic 2 in the modal,
  and topic 2 has no entries. Effect 3 then takes its early return
  \<open>if (!current) { setEntryDetail(null); return; }\<close>, which leaves the counter at 1. The
  answer for card 1 passes the test \<open>requestId !== entryDetailReqRef.current\<close> and becomes
  \<open>entryDetail\<close> while the entries are empty. Changing the topic through a search result
  adds one to the counter (\<open>entryDetailReqRef.current += 1\<close>), so there the same answer
  would be dropped.
\<close>

theorem stale_detail_adopted:
  "entryDetailReqRef detail_pending = 1 \<and>
   requests detail_pending
     = [apiGet_request ''/topics'', apiGet_request ''/entries?topic_id=1&limit=2000'',
        apiGet_request ''/entries/1''] \<and>
   selectedTopicId topic_emptied = Some 2 \<and>
   requests topic_emptied
     = [apiGet_request ''/topics'', apiGet_request ''/entries?topic_id=1&limit=2000'',
        apiGet_request ''/entries/1'', apiGet_request ''/entries?topic_id=2&limit=2000''] \<and>
   entries topic_emptied = [] \<and>
   entryDetail topic_emptied = None \<and>
   entryDetailReqRef topic_emptied = 1 \<and>
   entryDetail (mf_step no_parse topic_emptied (DetailSettled 1 (Inr detail1))) = Some detail1 \<and>
   entries (mf_step no_parse topic_emptied (DetailSettled 1 (Inr detail1))) = [] \<and>
   selectedTopicId (mf_step no_parse topic_emptied (DetailSettled 1 (Inr detail1))) = Some 2 \<and>
   selectedTopicId (mf_step no_parse detail_pending (ClickResult travel_result)) = Some 2 \<and>
   entryDetailReqRef (mf_step no_parse detail_pending (ClickResult travel_result)) = 2"
proof -
  have emptied:
    "selectedTopicId topic_emptied = Some 2"
    "requests topic_emptied
       = [apiGet_request ''/topics'', apiGet_request ''/entries?topic_id=1&limit=2000'',
          apiGet_request ''/entries/1'', apiGet_request ''/entries?topic_id=2&limit=2000'']"
    "entries topic_emptied = []" "entryDetail topic_emptied = None"
    "entryDetailReqRef topic_emptied = 1"
    by (simp_all add: topic_emptied_def detail_pending_eval onSelectTopic_def
        loadEntries_effect_def truthy_def loadEntries_done_def detail_effect_def js_index_def
        entries_path_def show_int_def show_nat.simps digit_char_def)
  have late:
    "entryDetail (mf_step no_parse topic_emptied (DetailSettled 1 (Inr detail1))) = Some detail1"
    "entries (mf_step no_parse topic_emptied (DetailSettled 1 (Inr detail1))) = []"
    "selectedTopicId (mf_step no_parse topic_emptied (DetailSettled 1 (Inr detail1))) = Some 2"
    by (simp_all add: detail_done_def emptied)
  have sibling:
    "selectedTopicId (mf_step no_parse detail_pending (ClickResult travel_result)) = Some 2"
    "entryDetailReqRef (mf_step no_parse detail_pending (ClickResult travel_result)) = 2"
    by (simp_all add: selectSearchResult_def searchQuery_rerender_def search_effect_def
        search_cleanup_def addToYourTopics_def Let_def travel_result_def truthy_def
        detail_pending_eval trim_empty)
  show ?thesis
    using emptied late sibling by (simp add: detail_pending_eval)
qed


subsection \<open>The search debounce\<close>

lemma timer_ok_iff:
  "timer_ok s \<longleftrightarrow>
     (\<forall>due q. searchTimer s = Some (due, q) \<longrightarrow>
        due = queryChangedAt s + 250 \<and> q = js_trim (searchQuery s) \<and> q \<noteq> [])"
  by (auto simp: timer_ok_def split: option.splits)

lemma timer_ok_step: "timer_ok s \<Longrightarrow> timer_ok (mf_step parse s ev)"
proof (cases ev)
  case (TopicsSettled res)
  assume "timer_ok s"
  with TopicsSettled show ?thesis
    by (auto simp: timer_ok_iff loadTopics_done_def Let_def split: sum.splits)
next
  case (ChangeSearch v)
  assume "timer_ok s"
  with ChangeSearch show ?thesis
    by (auto simp: timer_ok_iff onChange_search_def searchQuery_rerender_def search_effect_def
        search_cleanup_def Let_def)
next
  case (ClickResult item)
  assume "timer_ok s"
  with ClickResult show ?thesis
    by (auto simp: timer_ok_iff selectSearchResult_def searchQuery_rerender_def
        search_effect_def search_cleanup_def addToYourTopics_def trim_empty Let_def
        split: option.splits)
next
  case SearchTimeout
  assume "timer_ok s"
  with SearchTimeout show ?thesis
    by (auto simp: timer_ok_iff search_timeout_def split: option.splits)
qed (auto simp: timer_ok_iff step_defs split: sum.splits option.splits)

lemma timer_ok_foldl: "timer_ok s \<Longrightarrow> timer_ok (foldl (mf_step parse) s es)"
  by (induction es arbitrary: s) (simp_all add: timer_ok_step)

lemma timer_ok_run: "timer_ok (mf_run parse store es)"
  unfolding mf_run_def by (rule timer_ok_foldl) (simp add: timer_ok_iff mount_defs)

lemma changed_at_step:
  "(searchQuery (mf_step parse s ev) \<noteq> searchQuery s \<longrightarrow>
      queryChangedAt (mf_step parse s ev) = now s) \<and>
   (searchQuery (mf_step parse s ev) = searchQuery s \<longrightarrow>
      queryChangedAt (mf_step parse s ev) = queryChangedAt s) \<and>
   now s \<le> now (mf_step parse s ev)"
proof (cases ev)
  case (TopicsSettled res)
  then show ?thesis
    by (auto simp: loadTopics_done_def Let_def split: sum.splits)
next
  case (ClickResult item)
  then show ?thesis
    by (auto simp: selectSearchResult_def searchQuery_rerender_def search_effect_def
        search_cleanup_def addToYourTopics_def Let_def)
qed (auto simp: step_defs split: sum.splits option.splits)

lemma changed_le_now_foldl:
  "queryChangedAt s \<le> now s \<Longrightarrow>
   queryChangedAt (foldl (mf_step parse) s es) \<le> now (foldl (mf_step parse) s es)"
proof (induction es arbitrary: s)
  case Nil
  then show ?case by simp
next
  case (Cons e es)
  have "queryChangedAt (mf_step parse s e) \<le> now (mf_step parse s e)"
    using changed_at_step [of parse s e] Cons.prems
    by (cases "searchQuery (mf_step parse s e) = searchQuery s") auto
  then show ?case
    using Cons.IH by simp
qed

lemma changed_le_now_run:
  "queryChangedAt (mf_run parse store es) \<le> now (mf_run parse store es)"
  unfolding mf_run_def by (rule changed_le_now_foldl) (simp add: mount_defs)

lemma search_request_source:
  assumes ok: "timer_ok s"
    and new: "requests (mf_step parse s ev) = requests s @ new"
    and r: "r \<in> set new" "spec_endpoint r = Some GET_entries_search"
  shows "ev = SearchTimeout \<and>
         new = [apiGet_request (search_path (js_trim (searchQuery s)))] \<and>
         js_trim (searchQuery s) \<noteq> [] \<and> queryChangedAt s + 250 \<le> now s"
proof -
  from step_requests [of parse s ev] new
  have "new = [] \<or> (\<exists>t. new = [apiGet_request (entries_path t)]) \<or>
      (\<exists>i. new = [apiGet_request (entry_path i)]) \<or>
      (ev = SearchTimeout \<and>
       (\<exists>due q. searchTimer s = Some (due, q) \<and> due \<le> now s \<and>
          new = [apiGet_request (search_path q)]))"
    by auto
  with r have "ev = SearchTimeout \<and>
       (\<exists>due q. searchTimer s = Some (due, q) \<and> due \<le> now s \<and>
          new = [apiGet_request (search_path q)])"
    by (auto simp: ep_entries ep_entry)
  then obtain due q where t: "ev = SearchTimeout" "searchTimer s = Some (due, q)" "due \<le> now s"
      "new = [apiGet_request (search_path q)]"
    by blast
  with ok have "due = queryChangedAt s + 250 \<and> q = js_trim (searchQuery s) \<and> q \<noteq> []"
    unfolding timer_ok_iff by blast
  with t show ?thesis by auto
qed

lemma noedit_step:
  assumes "\<not> is_edit ev"
  shows "\<exists>new. requests (mf_step parse s ev) = requests s @ new \<and>
     ((filter (\<lambda>r. spec_endpoint r = Some GET_entries_search) new = [] \<and>
       searchTimer (mf_step parse s ev) = searchTimer s) \<or>
      (searchTimer s \<noteq> None \<and> length new = 1 \<and> searchTimer (mf_step parse s ev) = None))"
proof (cases ev)
  case (TopicsSettled res)
  then show ?thesis
    by (auto simp: loadTopics_done_def Let_def split: sum.splits)
next
  case SearchTimeout
  then show ?thesis
    by (auto simp: search_timeout_def split: option.splits)
next
  case (ChangeSearch v)
  with assms show ?thesis by simp
next
  case (ClickResult item)
  with assms show ?thesis by simp
qed (auto simp: step_defs ep_entries ep_entry split: sum.splits option.splits)

lemma noedit_idle:
  assumes "\<forall>e \<in> set es. \<not> is_edit e" and "searchTimer s = None"
  shows "\<exists>new. requests (foldl (mf_step parse) s es) = requests s @ new \<and>
     filter (\<lambda>r. spec_endpoint r = Some GET_entries_search) new = []"
  using assms
proof (induction es arbitrary: s)
  case Nil
  then show ?case by simp
next
  case (Cons e es)
  from Cons.prems have ne: "\<not> is_edit e" by simp
  from noedit_step [OF ne, of parse s] Cons.prems(2)
  obtain new where new: "requests (mf_step parse s e) = requests s @ new"
      "filter (\<lambda>r. spec_endpoint r = Some GET_entries_search) new = []"
      "searchTimer (mf_step parse s e) = None"
    by auto
  from Cons.prems have rest: "\<forall>e \<in> set es. \<not> is_edit e"
    by simp
  from Cons.IH [OF rest new(3)]
  obtain new' where "requests (foldl (mf_step parse) (mf_step parse s e) es)
      = requests (mf_step parse s e) @ new'"
      "filter (\<lambda>r. spec_endpoint r = Some GET_entries_search) new' = []"
    by auto
  with new show ?case
    by (intro exI [of _ "new @ new'"]) simp
qed

lemma noedit_at_most_one:
  assumes "\<forall>e \<in> set es. \<not> is_edit e"
  shows "\<exists>new. requests (foldl (mf_step parse) s es) = requests s @ new \<and>
     length (filter (\<lambda>r. spec_endpoint r = Some GET_entries_search) new) \<le> 1"
  using assms
proof (induction es arbitrary: s)
  case Nil
  then show ?case by simp
next
  case (Cons e es)
  from Cons.prems have ne: "\<not> is_edit e" and rest: "\<forall>e \<in> set es. \<not> is_edit e"
    by simp_all
  from noedit_step [OF ne, of parse s]
  obtain new where new: "requests (mf_step parse s e) = requests s @ new"
    and alt: "(filter (\<lambda>r. spec_endpoint r = Some GET_entries_search) new = [] \<and>
       searchTimer (mf_step parse s e) = searchTimer s) \<or>
      (length new = 1 \<and> searchTimer (mf_step parse s e) = None)"
    by blast
  from alt show ?case
  proof
    assume a: "filter (\<lambda>r. spec_endpoint r = Some GET_entries_search) new = [] \<and>
       searchTimer (mf_step parse s e) = searchTimer s"
    from Cons.IH [OF rest, of "mf_step parse s e"]
    obtain new' where "requests (foldl (mf_step parse) (mf_step parse s e) es)
        = requests (mf_step parse s e) @ new'"
        "length (filter (\<lambda>r. spec_endpoint r = Some GET_entries_search) new') \<le> 1"
      by blast
    with new a show ?thesis
      by (intro exI [of _ "new @ new'"]) simp
  next
    assume b: "length new = 1 \<and> searchTimer (mf_step parse s e) = None"
    from noedit_idle [OF rest conjunct2 [OF b], of parse]
    obtain new' where "requests (foldl (mf_step parse) (mf_step parse s e) es)
        = requests (mf_step parse s e) @ new'"
        "filter (\<lambda>r. spec_endpoint r = Some GET_entries_search) new' = []"
      by blast
    moreover have "length (filter (\<lambda>r. spec_endpoint r = Some GET_entries_search) new) \<le> 1"
      using b length_filter_le [of "\<lambda>r. spec_endpoint r = Some GET_entries_search" new]
      by simp
    ultimately show ?thesis
      using new by (intro exI [of _ "new @ new'"]) simp
  qed
qed

text \<open>
  C3. In every state of every run: a search request is issued only by the timeout, for
  the trimmed query, which is not blank, and no earlier than 250 ms after the query last
  changed (\<open>queryChangedAt\<close> is the time of the last change and never ahead of the clock);
  a stretch of events without an edit issues at most one search request; an edit that
  changes the query issues nothing and replaces the pending timeout by one for the new
  trimmed query, due 250 ms later, or by none when the new query is blank, in which case
  the results are emptied and the dropdown closed; while the trimmed query is blank no
  timeout is pending; a pending timeout is for the trimmed query, due 250 ms after its
  last change, and when it runs at or after its due time it issues the search request and
  is gone; so an edit to a query that is not blank, 250 ms or more, and the timeout
  issue exactly one request.
\<close>

theorem search_debounce:
  assumes "s = mf_run parse store es"
  shows
    "(requests (mf_step parse s ev) = requests s @ new \<and> r \<in> set new \<and>
      spec_endpoint r = Some GET_entries_search \<longrightarrow>
        ev = SearchTimeout \<and>
        new = [apiGet_request (search_path (js_trim (searchQuery s)))] \<and>
        js_trim (searchQuery s) \<noteq> [] \<and> queryChangedAt s + 250 \<le> now s) \<and>
     (searchQuery (mf_step parse s ev) \<noteq> searchQuery s \<longrightarrow>
        queryChangedAt (mf_step parse s ev) = now s) \<and>
     (searchQuery (mf_step parse s ev) = searchQuery s \<longrightarrow>
        queryChangedAt (mf_step parse s ev) = queryChangedAt s) \<and>
     queryChangedAt s \<le> now s \<and> now s \<le> now (mf_step parse s ev) \<and>
     ((\<forall>e \<in> set es'. \<not> is_edit e) \<and>
      requests (foldl (mf_step parse) s es') = requests s @ new' \<longrightarrow>
        length (filter (\<lambda>r. spec_endpoint r = Some GET_entries_search) new') \<le> 1) \<and>
     (v \<noteq> searchQuery s \<longrightarrow>
        searchTimer (onChange_search v s)
          = (if js_trim v = [] then None else Some (now s + 250, js_trim v)) \<and>
        requests (onChange_search v s) = requests s) \<and>
     (v \<noteq> searchQuery s \<and> js_trim v = [] \<longrightarrow>
        searchResults (onChange_search v s) = [] \<and> \<not> searchOpen (onChange_search v s)) \<and>
     (js_trim (searchQuery s) = [] \<longrightarrow> searchTimer s = None \<and> search_timeout s = s) \<and>
     (searchTimer s = Some (due, q) \<longrightarrow>
        due = queryChangedAt s + 250 \<and> q = js_trim (searchQuery s) \<and> q \<noteq> [] \<and>
        (due \<le> now s \<longrightarrow>
           mf_step parse s SearchTimeout
             = s\<lparr>searchTimer := None, searchLoading := True,
                 requests := requests s @ [apiGet_request (search_path q)]\<rparr>)) \<and>
     (v \<noteq> searchQuery s \<and> js_trim v \<noteq> [] \<and> 250 \<le> d \<longrightarrow>
        requests (foldl (mf_step parse) s [ChangeSearch v, Elapse d, SearchTimeout])
          = requests s @ [apiGet_request (search_path (js_trim v))] \<and>
        searchTimer (foldl (mf_step parse) s [ChangeSearch v, Elapse d, SearchTimeout]) = None)"
proof -
  have ok: "timer_ok s"
    unfolding assms by (rule timer_ok_run)
  have 1: "requests (mf_step parse s ev) = requests s @ new \<and> r \<in> set new \<and>
      spec_endpoint r = Some GET_entries_search \<longrightarrow>
        ev = SearchTimeout \<and>
        new = [apiGet_request (search_path (js_trim (searchQuery s)))] \<and>
        js_trim (searchQuery s) \<noteq> [] \<and> queryChangedAt s + 250 \<le> now s"
    using search_request_source [OF ok, of parse ev new r] by blast
  have 2: "queryChangedAt s \<le> now s"
    unfolding assms by (rule changed_le_now_run)
  have 3: "(\<forall>e \<in> set es'. \<not> is_edit e) \<and>
      requests (foldl (mf_step parse) s es') = requests s @ new' \<longrightarrow>
        length (filter (\<lambda>r. spec_endpoint r = Some GET_entries_search) new') \<le> 1"
  proof
    assume a: "(\<forall>e \<in> set es'. \<not> is_edit e) \<and>
      requests (foldl (mf_step parse) s es') = requests s @ new'"
    then obtain n where "requests (foldl (mf_step parse) s es') = requests s @ n"
        "length (filter (\<lambda>r. spec_endpoint r = Some GET_entries_search) n) \<le> 1"
      using noedit_at_most_one [of es' parse s] by blast
    with a show "length (filter (\<lambda>r. spec_endpoint r = Some GET_entries_search) new') \<le> 1"
      by simp
  qed
  have 4: "v \<noteq> searchQuery s \<longrightarrow>
        searchTimer (onChange_search v s)
          = (if js_trim v = [] then None else Some (now s + 250, js_trim v)) \<and>
        requests (onChange_search v s) = requests s"
    and 5: "v \<noteq> searchQuery s \<and> js_trim v = [] \<longrightarrow>
        searchResults (onChange_search v s) = [] \<and> \<not> searchOpen (onChange_search v s)"
    by (simp_all add: onChange_search_def searchQuery_rerender_def search_effect_def
        search_cleanup_def Let_def)
  have 6: "js_trim (searchQuery s) = [] \<longrightarrow> searchTimer s = None \<and> search_timeout s = s"
    using ok unfolding timer_ok_iff by (cases "searchTimer s") (auto simp: search_timeout_def)
  have 7: "searchTimer s = Some (due, q) \<longrightarrow>
        due = queryChangedAt s + 250 \<and> q = js_trim (searchQuery s) \<and> q \<noteq> [] \<and>
        (due \<le> now s \<longrightarrow>
           mf_step parse s SearchTimeout
             = s\<lparr>searchTimer := None, searchLoading := True,
                 requests := requests s @ [apiGet_request (search_path q)]\<rparr>)"
  proof
    assume t: "searchTimer s = Some (due, q)"
    with ok have "due = queryChangedAt s + 250 \<and> q = js_trim (searchQuery s) \<and> q \<noteq> []"
      unfolding timer_ok_iff by blast
    moreover have "due \<le> now s \<longrightarrow>
           mf_step parse s SearchTimeout
             = s\<lparr>searchTimer := None, searchLoading := True,
                 requests := requests s @ [apiGet_request (search_path q)]\<rparr>"
      using t by (simp add: search_timeout_def)
    ultimately show "due = queryChangedAt s + 250 \<and> q = js_trim (searchQuery s) \<and> q \<noteq> [] \<and>
        (due \<le> now s \<longrightarrow>
           mf_step parse s SearchTimeout
             = s\<lparr>searchTimer := None, searchLoading := True,
                 requests := requests s @ [apiGet_request (search_path q)]\<rparr>)"
      by blast
  qed
  have 8: "v \<noteq> searchQuery s \<and> js_trim v \<noteq> [] \<and> 250 \<le> d \<longrightarrow>
        requests (foldl (mf_step parse) s [ChangeSearch v, Elapse d, SearchTimeout])
          = requests s @ [apiGet_request (search_path (js_trim v))] \<and>
        searchTimer (foldl (mf_step parse) s [ChangeSearch v, Elapse d, SearchTimeout]) = None"
  proof
    assume a: "v \<noteq> searchQuery s \<and> js_trim v \<noteq> [] \<and> 250 \<le> d"
    define s1 where "s1 = onChange_search v s"
    have s1: "searchTimer s1 = Some (now s + 250, js_trim v)" "now s1 = now s"
      "requests s1 = requests s"
      using a unfolding s1_def
      by (simp_all add: onChange_search_def searchQuery_rerender_def search_effect_def
          search_cleanup_def Let_def)
    define s2 where "s2 = s1\<lparr>now := now s1 + d\<rparr>"
    have s2: "searchTimer s2 = Some (now s + 250, js_trim v)" "now s + 250 \<le> now s2"
      "requests s2 = requests s"
      using a s1 unfolding s2_def by simp_all
    have "requests (search_timeout s2) = requests s @ [apiGet_request (search_path (js_trim v))]"
      and "searchTimer (search_timeout s2) = None"
      using s2 by (simp_all add: search_timeout_def)
    then show "requests (foldl (mf_step parse) s [ChangeSearch v, Elapse d, SearchTimeout])
          = requests s @ [apiGet_request (search_path (js_trim v))] \<and>
        searchTimer (foldl (mf_step parse) s [ChangeSearch v, Elapse d, SearchTimeout]) = None"
      by (simp add: s1_def s2_def)
  qed
  from 1 2 3 4 5 6 7 8 changed_at_step [of parse s ev] show ?thesis
    by blast
qed

lemma typed_eval:
  "searchQuery typed = ''cat ''" "searchTimer typed = Some (350, ''cat'')"
  "queryChangedAt typed = 100" "now typed = 350"
  "requests typed = [apiGet_request ''/topics'']"
proof -
  have m: "searchQuery (mount (initial Map.empty)) = []" "now (mount (initial Map.empty)) = 0"
    "requests (mount (initial Map.empty)) = [apiGet_request ''/topics'']"
    by (simp_all add: mount_defs)
  have t: "typed = (onChange_search ''cat ''
      ((onChange_search ''ca'' (mount (initial Map.empty)))\<lparr>now := 100\<rparr>))\<lparr>now := 350\<rparr>"
    by (simp add: typed_def mf_run_def m onChange_search_def searchQuery_rerender_def
        search_effect_def search_cleanup_def Let_def trim_samples)
  show "searchQuery typed = ''cat ''" "searchTimer typed = Some (350, ''cat'')"
    "queryChangedAt typed = 100" "now typed = 350"
    "requests typed = [apiGet_request ''/topics'']"
    by (simp_all add: t m onChange_search_def searchQuery_rerender_def
        search_effect_def search_cleanup_def Let_def trim_samples)
qed

lemma typed_fires:
  "requests (mf_step no_parse typed SearchTimeout)
     = requests typed @ [apiGet_request (search_path ''cat'')]"
  "requests (foldl (mf_step no_parse) typed [SearchTimeout, Elapse 10, SearchTimeout])
     = requests typed @ [apiGet_request (search_path ''cat'')]"
  by (simp_all add: search_timeout_def typed_eval)

theorem search_debounce_witness:
  "requests (mf_step no_parse typed SearchTimeout)
     = requests typed @ [apiGet_request (search_path ''cat'')] \<and>
   spec_endpoint (apiGet_request (search_path ''cat'')) = Some GET_entries_search \<and>
   js_trim (searchQuery typed) = ''cat'' \<and>
   queryChangedAt typed = 100 \<and> now typed = 350 \<and>
   requests (foldl (mf_step no_parse) typed [SearchTimeout, Elapse 10, SearchTimeout])
     = requests typed @ [apiGet_request (search_path ''cat'')] \<and>
   length (filter (\<lambda>r. spec_endpoint r = Some GET_entries_search)
     [apiGet_request (search_path ''cat'')]) \<le> 1 \<and>
   js_trim [CHR 0xC2, CHR 0xA0] = [] \<and>
   searchTimer (onChange_search [CHR 0xC2, CHR 0xA0] typed) = None \<and>
   requests (onChange_search [CHR 0xC2, CHR 0xA0] typed) = requests typed \<and>
   searchResults (onChange_search [CHR 0xC2, CHR 0xA0] typed) = [] \<and>
   \<not> searchOpen (onChange_search [CHR 0xC2, CHR 0xA0] typed) \<and>
   searchTimer typed = Some (350, ''cat'') \<and>
   searchTimer (mf_step no_parse typed SearchTimeout) = None \<and>
   searchTimer (onChange_search ''dog'' typed) = Some (600, ''dog'') \<and>
   requests (foldl (mf_step no_parse) typed [ChangeSearch ''dog'', Elapse 250, SearchTimeout])
     = requests typed @ [apiGet_request (search_path ''dog'')]"
proof -
  note a = search_debounce [OF typed_def, of SearchTimeout
      "[apiGet_request (search_path ''cat'')]" "apiGet_request (search_path ''cat'')"
      "[SearchTimeout, Elapse 10, SearchTimeout]" "[apiGet_request (search_path ''cat'')]"
      "[CHR 0xC2, CHR 0xA0]" 350 "''cat''" 250]
  note b = search_debounce [OF typed_def, of SearchTimeout
      "[apiGet_request (search_path ''cat'')]" "apiGet_request (search_path ''cat'')"
      "[SearchTimeout, Elapse 10, SearchTimeout]" "[apiGet_request (search_path ''cat'')]"
      "''dog''" 350 "''cat''" 250]
  have a3: "(\<forall>e \<in> set [SearchTimeout, Elapse 10, SearchTimeout]. \<not> is_edit e) \<and>
      requests (foldl (mf_step no_parse) typed [SearchTimeout, Elapse 10, SearchTimeout])
        = requests typed @ [apiGet_request (search_path ''cat'')] \<longrightarrow>
      length (filter (\<lambda>r. spec_endpoint r = Some GET_entries_search)
        [apiGet_request (search_path ''cat'')]) \<le> 1"
    using a by blast
  have a4: "[CHR 0xC2, CHR 0xA0] \<noteq> searchQuery typed \<longrightarrow>
      searchTimer (onChange_search [CHR 0xC2, CHR 0xA0] typed)
        = (if js_trim [CHR 0xC2, CHR 0xA0] = [] then None
           else Some (now typed + 250, js_trim [CHR 0xC2, CHR 0xA0])) \<and>
      requests (onChange_search [CHR 0xC2, CHR 0xA0] typed) = requests typed"
    using a by blast
  have a5: "[CHR 0xC2, CHR 0xA0] \<noteq> searchQuery typed \<and> js_trim [CHR 0xC2, CHR 0xA0] = [] \<longrightarrow>
      searchResults (onChange_search [CHR 0xC2, CHR 0xA0] typed) = [] \<and>
      \<not> searchOpen (onChange_search [CHR 0xC2, CHR 0xA0] typed)"
    using a by blast
  have a7: "searchTimer typed = Some (350, ''cat'') \<longrightarrow> 350 \<le> now typed \<longrightarrow>
      mf_step no_parse typed SearchTimeout
        = typed\<lparr>searchTimer := None, searchLoading := True,
            requests := requests typed @ [apiGet_request (search_path ''cat'')]\<rparr>"
    using a by blast
  have b4: "''dog'' \<noteq> searchQuery typed \<longrightarrow>
      searchTimer (onChange_search ''dog'' typed)
        = (if js_trim ''dog'' = [] then None else Some (now typed + 250, js_trim ''dog'')) \<and>
      requests (onChange_search ''dog'' typed) = requests typed"
    using b by blast
  have b8: "''dog'' \<noteq> searchQuery typed \<and> js_trim ''dog'' \<noteq> [] \<and> (250::nat) \<le> 250 \<longrightarrow>
      requests (foldl (mf_step no_parse) typed [ChangeSearch ''dog'', Elapse 250, SearchTimeout])
        = requests typed @ [apiGet_request (search_path (js_trim ''dog''))] \<and>
      searchTimer (foldl (mf_step no_parse) typed
        [ChangeSearch ''dog'', Elapse 250, SearchTimeout]) = None"
    using b by blast
  have 1: "length (filter (\<lambda>r. spec_endpoint r = Some GET_entries_search)
     [apiGet_request (search_path ''cat'')]) \<le> 1"
    using a3 typed_fires by simp
  have 2: "searchTimer (onChange_search [CHR 0xC2, CHR 0xA0] typed) = None \<and>
      requests (onChange_search [CHR 0xC2, CHR 0xA0] typed) = requests typed \<and>
      searchResults (onChange_search [CHR 0xC2, CHR 0xA0] typed) = [] \<and>
      \<not> searchOpen (onChange_search [CHR 0xC2, CHR 0xA0] typed)"
    using a4 a5 by (simp add: typed_eval trim_samples)
  have 3: "searchTimer (onChange_search ''dog'' typed) = Some (600, ''dog'')"
    using b4 by (simp add: typed_eval trim_samples)
  have 4: "searchTimer (mf_step no_parse typed SearchTimeout) = None"
    using a7 by (simp add: typed_eval)
  have 5: "requests (foldl (mf_step no_parse) typed
        [ChangeSearch ''dog'', Elapse 250, SearchTimeout])
      = requests typed @ [apiGet_request (search_path ''dog'')]"
    using b8 by (simp add: typed_eval trim_samples)
  show ?thesis
    using 1 2 3 4 5 typed_fires by (simp add: typed_eval trim_samples ep_search)
qed

end
